theory Spec2Isabelle
  imports Complex_Main
begin

section \<open>Numeric model\<close>

text \<open>
  The C++ sources compute in \<open>float\<close> and \<open>double\<close>. In the oscillator's
  \<open>getNextSample\<close> and \<open>polyBlep\<close> and in the noise generator, where the rounding decides
  what the code returns, every operation is rounded to the type it is computed in:
  \<open>fl64\<close> and \<open>fl32\<close> round a real number to the nearest value of the binary64 and the
  binary32 format, ties to the even significand, with gradual underflow. Overflow to an
  infinity is not modelled (the values of the theorems stay far below it), operations
  are not fused, and the library's \<open>sin\<close> is taken as the rounded sine (no theorem
  depends on its values). The other functions (the setters, the mixing of the unison
  voices, the voice) are idealised as \<open>real\<close>; in particular \<open>setFrequency\<close> keeps the
  quotient as it is, and the theorems on \<open>getNextSample\<close> that depend on the
  rounding take an increment that is a \<open>double\<close>. A division by zero, whose quotient is
  an infinity or a NaN, is written out as the error \<open>NonFinite\<close>; \<open>OutOfBounds\<close> stands
  for an access outside an array or buffer.
\<close>

datatype error = NonFinite | OutOfBounds

text \<open>The power of two with an integer exponent.\<close>

definition pow2 :: "int \<Rightarrow> real" where
  "pow2 e = (if 0 \<le> e then 2 ^ nat e else 1 / 2 ^ nat (- e))"

text \<open>Rounding to the nearest integer, a tie to the even one.\<close>

definition roundHalfEven :: "real \<Rightarrow> int" where
  "roundHalfEven q =
     (let f = \<lfloor>q\<rfloor>; r = q - of_int f
      in if r < 1/2 then f else if 1/2 < r then f + 1 else if even f then f else f + 1)"

text \<open>
  Rounding to a binary format with \<open>p\<close> significant bits whose smallest quantum is
  \<open>pow2 emin\<close>: the quantum of \<open>x\<close> is the power of two that leaves \<open>p\<close> bits above it, but
  not less than the smallest one, and \<open>x\<close> is rounded to the nearest multiple of it.
\<close>

definition roundTo :: "nat \<Rightarrow> int \<Rightarrow> real \<Rightarrow> real" where
  "roundTo p emin x =
     (if x = 0 then 0
      else let e = max (\<lfloor>log 2 \<bar>x\<bar>\<rfloor> - int p + 1) emin
           in of_int (roundHalfEven (x / pow2 e)) * pow2 e)"

definition fl64 :: "real \<Rightarrow> real" where
  "fl64 = roundTo 53 (- 1074)"

definition fl32 :: "real \<Rightarrow> real" where
  "fl32 = roundTo 24 (- 149)"

text \<open>The real numbers that are values of the type \<open>double\<close>.\<close>

definition isDouble :: "real \<Rightarrow> bool" where
  "isDouble x = (fl64 x = x)"

text \<open>
  \<open>juce::jlimit (lowerLimit, upperLimit, valueToConstrain)\<close>, a library template:
  the value if it lies between the limits, otherwise the limit it passed.
\<close>

definition jlimit :: "'a::linorder \<Rightarrow> 'a \<Rightarrow> 'a \<Rightarrow> 'a" where
  "jlimit lowerLimit upperLimit valueToConstrain =
     (if valueToConstrain < lowerLimit then lowerLimit
      else if upperLimit < valueToConstrain then upperLimit
      else valueToConstrain)"

text \<open>
  The C library's \<open>fmod x y\<close> for a divisor \<open>y \<noteq> 0\<close>: \<open>x - n * y\<close> with \<open>n\<close> the quotient
  truncated towards zero. The oscillator calls it with the divisor \<open>1.0\<close> only.
\<close>

definition fmod :: "real \<Rightarrow> real \<Rightarrow> real" where
  "fmod x y = x - y * of_int (if 0 \<le> x / y then \<lfloor>x / y\<rfloor> else \<lceil>x / y\<rceil>)"

section \<open>Oscillator.h\<close>

datatype OscillatorWaveform = Sine | Saw | Square | Triangle

record Oscillator =
  currentWaveform :: OscillatorWaveform
  currentPhase :: real
  phaseDelta :: real

text \<open>The default member initialisers of the class.\<close>

definition Oscillator_init :: Oscillator where
  "Oscillator_init = \<lparr>currentWaveform = Sine, currentPhase = 0, phaseDelta = 0\<rparr>"

definition Oscillator_setWaveform :: "OscillatorWaveform \<Rightarrow> Oscillator \<Rightarrow> Oscillator" where
  "Oscillator_setWaveform waveform osc = osc\<lparr>currentWaveform := waveform\<rparr>"

text \<open>
  \<open>setFrequency\<close> divides by the sample rate without a test; a zero sample rate makes
  the stored increment an infinity or a NaN.
\<close>

definition Oscillator_setFrequency :: "real \<Rightarrow> real \<Rightarrow> Oscillator \<Rightarrow> error + Oscillator" where
  "Oscillator_setFrequency frequency sampleRate osc =
     (if sampleRate = 0 then Inl NonFinite
      else let cyclesPerSample = frequency / sampleRate
           in Inr (osc\<lparr>phaseDelta := cyclesPerSample\<rparr>))"

definition Oscillator_reset :: "Oscillator \<Rightarrow> Oscillator" where
  "Oscillator_reset osc = osc\<lparr>currentPhase := 0\<rparr>"

text \<open>
  \<open>polyBlep\<close> computes in \<open>double\<close> and returns its result as a \<open>float\<close>. The sums are
  evaluated from the left, as the C++ expressions \<open>t + t - t * t - 1.0\<close> and
  \<open>t * t + t + t + 1.0\<close> are. The divisor \<open>dt\<close> is zero in a dividing branch only for a
  phase outside \<open>[0, 1]\<close>.
\<close>

definition polyBlep :: "real \<Rightarrow> real \<Rightarrow> error + real" where
  "polyBlep t dt =
     (if t < dt then
        (if dt = 0 then Inl NonFinite
         else let t1 = fl64 (t / dt)
              in Inr (fl32 (fl64 (fl64 (fl64 (t1 + t1) - fl64 (t1 * t1)) - 1))))
      else if t > fl64 (1 - dt) then
        (if dt = 0 then Inl NonFinite
         else let t1 = fl64 (fl64 (t - 1) / dt)
              in Inr (fl32 (fl64 (fl64 (fl64 (fl64 (t1 * t1) + t1) + t1) + 1))))
      else Inr 0)"

text \<open>
  The \<open>switch\<close> of \<open>getNextSample\<close>: the sample of a waveform at phase \<open>t\<close>. The variable
  \<open>sample\<close> is a \<open>float\<close>: an expression with the \<open>double\<close> phase is computed in \<open>double\<close>
  and rounded when it is assigned, and \<open>sample += b\<close> and \<open>sample -= b\<close> with a \<open>float\<close>
  \<open>b\<close> are \<open>float\<close> operations. \<open>fmod\<close> is exact.
\<close>

definition waveformSample :: "OscillatorWaveform \<Rightarrow> real \<Rightarrow> real \<Rightarrow> error + real" where
  "waveformSample w t dt =
     (case w of
        Sine \<Rightarrow> Inr (fl32 (fl64 (sin (fl64 (fl64 (t * 2) * fl64 pi)))))
      | Saw \<Rightarrow>
          (case polyBlep t dt of
             Inl e \<Rightarrow> Inl e
           | Inr b \<Rightarrow> Inr (fl32 (fl32 (fl64 (fl64 (2 * t) - 1)) - b)))
      | Square \<Rightarrow>
          (case polyBlep t dt of
             Inl e \<Rightarrow> Inl e
           | Inr b1 \<Rightarrow>
               (case polyBlep (fmod (fl64 (t + 0.5)) 1) dt of
                  Inl e \<Rightarrow> Inl e
                | Inr b2 \<Rightarrow> Inr (fl32 (fl32 ((if t < 0.5 then 1 else -1) + b1) - b2))))
      | Triangle \<Rightarrow>
          Inr (if t < 0.5 then fl32 (fl64 (-1 + fl64 (4 * t)))
               else fl32 (fl64 (3 - fl64 (4 * t)))))"

text \<open>
  The phase update that ends \<open>getNextSample\<close>: one \<open>double\<close> addition, and one
  subtraction if the sum is \<open>1\<close> or more.
\<close>

definition advancePhase :: "real \<Rightarrow> real \<Rightarrow> real" where
  "advancePhase t dt = (let p = fl64 (t + dt) in if p \<ge> 1 then fl64 (p - 1) else p)"

definition Oscillator_getNextSample :: "Oscillator \<Rightarrow> error + (real \<times> Oscillator)" where
  "Oscillator_getNextSample osc =
     (case waveformSample (currentWaveform osc) (currentPhase osc) (phaseDelta osc) of
        Inl e \<Rightarrow> Inl e
      | Inr sample \<Rightarrow>
          Inr (sample, osc\<lparr>currentPhase := advancePhase (currentPhase osc) (phaseDelta osc)\<rparr>))"

text \<open>\<open>n\<close> successive calls of \<open>getNextSample\<close>, the samples dropped.\<close>

fun getNextSamples :: "nat \<Rightarrow> Oscillator \<Rightarrow> error + Oscillator" where
  "getNextSamples 0 osc = Inr osc"
| "getNextSamples (Suc n) osc =
     (case Oscillator_getNextSample osc of
        Inl e \<Rightarrow> Inl e
      | Inr (sample, osc') \<Rightarrow> getNextSamples n osc')"

section \<open>UnisonOscillator.h\<close>

record UnisonOscillator =
  oscillators :: "Oscillator list"
  numVoices :: int
  detuneAmount :: real
  stereoWidth :: real

definition maxVoices :: int where
  "maxVoices = 7"

text \<open>The constructor adds \<open>maxVoices\<close> oscillators; the other fields have initialisers.\<close>

definition UnisonOscillator_init :: UnisonOscillator where
  "UnisonOscillator_init =
     \<lparr>oscillators = replicate (nat maxVoices) Oscillator_init,
      numVoices = 1, detuneAmount = 0.5, stereoWidth = 0.5\<rparr>"

definition setNumVoices :: "int \<Rightarrow> UnisonOscillator \<Rightarrow> UnisonOscillator" where
  "setNumVoices num u = u\<lparr>numVoices := jlimit 1 maxVoices num\<rparr>"

definition setDetuneAmount :: "real \<Rightarrow> UnisonOscillator \<Rightarrow> UnisonOscillator" where
  "setDetuneAmount amount u = u\<lparr>detuneAmount := jlimit 0 1 amount\<rparr>"

definition setStereoWidth :: "real \<Rightarrow> UnisonOscillator \<Rightarrow> UnisonOscillator" where
  "setStereoWidth width u = u\<lparr>stereoWidth := jlimit 0 1 width\<rparr>"

definition Unison_setWaveform :: "OscillatorWaveform \<Rightarrow> UnisonOscillator \<Rightarrow> UnisonOscillator" where
  "Unison_setWaveform waveform u =
     u\<lparr>oscillators := map (Oscillator_setWaveform waveform) (oscillators u)\<rparr>"

text \<open>
  The factor \<open>voiceDetune\<close> that the body of the loop in \<open>setFrequency\<close> computes for
  voice \<open>i\<close>: it starts at \<open>0.0f\<close> and is assigned the ratio only when there is more than
  one voice. The integer division \<open>numVoices / 2\<close> has a positive dividend there.
\<close>

definition voiceDetune :: "int \<Rightarrow> real \<Rightarrow> int \<Rightarrow> real" where
  "voiceDetune n detune i =
     (if n > 1 then
        let voiceIndex = i - n div 2;
            maxDetuneCents = 15;
            detuneCents = of_int voiceIndex * detune * maxDetuneCents
        in 2 powr (detuneCents / 1200)
      else 0)"

text \<open>
  The loops over the voices run \<open>i\<close> from \<open>0\<close> while \<open>i < numVoices\<close>; the first
  natural-number argument counts the iterations left. \<open>oscillators[i]\<close> outside the array is a
  null pointer in the library, dereferenced at once: \<open>OutOfBounds\<close>.
\<close>

fun setFrequencyLoop ::
  "real \<Rightarrow> real \<Rightarrow> int \<Rightarrow> real \<Rightarrow> nat \<Rightarrow> nat \<Rightarrow> Oscillator list \<Rightarrow> error + Oscillator list" where
  "setFrequencyLoop frequency sampleRate n detune 0 i oscs = Inr oscs"
| "setFrequencyLoop frequency sampleRate n detune (Suc k) i oscs =
     (if i < length oscs then
        (case Oscillator_setFrequency (frequency * voiceDetune n detune (int i)) sampleRate (oscs ! i) of
           Inl e \<Rightarrow> Inl e
         | Inr osc' \<Rightarrow> setFrequencyLoop frequency sampleRate n detune k (Suc i) (oscs[i := osc']))
      else Inl OutOfBounds)"

definition Unison_setFrequency :: "real \<Rightarrow> real \<Rightarrow> UnisonOscillator \<Rightarrow> error + UnisonOscillator" where
  "Unison_setFrequency frequency sampleRate u =
     (case setFrequencyLoop frequency sampleRate (numVoices u) (detuneAmount u)
             (nat (numVoices u)) 0 (oscillators u) of
        Inl e \<Rightarrow> Inl e
      | Inr oscs \<Rightarrow> Inr (u\<lparr>oscillators := oscs\<rparr>))"

text \<open>The pan position of voice \<open>i\<close> and the gains of the constant-power law.\<close>

definition voicePan :: "int \<Rightarrow> real \<Rightarrow> nat \<Rightarrow> real" where
  "voicePan n width i =
     (if n > 1 then (2 * real i / of_int (n - 1) - 1) * width else 0)"

definition panGains :: "real \<Rightarrow> real \<times> real" where
  "panGains pan = (let panAngle = (pan + 1) * 0.25 * pi in (cos panAngle, sin panAngle))"

fun stereoLoop ::
  "int \<Rightarrow> real \<Rightarrow> nat \<Rightarrow> nat \<Rightarrow> real \<times> real \<Rightarrow> Oscillator list \<Rightarrow>
     error + ((real \<times> real) \<times> Oscillator list)" where
  "stereoLoop n width 0 i acc oscs = Inr (acc, oscs)"
| "stereoLoop n width (Suc k) i acc oscs =
     (if i < length oscs then
        (case Oscillator_getNextSample (oscs ! i) of
           Inl e \<Rightarrow> Inl e
         | Inr (sample, osc') \<Rightarrow>
             let (leftGain, rightGain) = panGains (voicePan n width i);
                 leftSum = fst acc + sample * leftGain;
                 rightSum = snd acc + sample * rightGain
             in stereoLoop n width k (Suc i) (leftSum, rightSum) (oscs[i := osc']))
      else Inl OutOfBounds)"

text \<open>
  \<open>getNextSampleStereo\<close>. The normalisation divides by \<open>sqrt numVoices\<close>, a division by
  zero (or the root of a negative number) when the count is not positive.
\<close>

definition getNextSampleStereo :: "UnisonOscillator \<Rightarrow> error + ((real \<times> real) \<times> UnisonOscillator)" where
  "getNextSampleStereo u =
     (case stereoLoop (numVoices u) (stereoWidth u) (nat (numVoices u)) 0 (0, 0) (oscillators u) of
        Inl e \<Rightarrow> Inl e
      | Inr ((leftSum, rightSum), oscs) \<Rightarrow>
          if numVoices u \<le> 0 then Inl NonFinite
          else let normFactor = 1 / sqrt (of_int (numVoices u))
               in Inr ((leftSum * normFactor, rightSum * normFactor), u\<lparr>oscillators := oscs\<rparr>))"

definition Unison_reset :: "UnisonOscillator \<Rightarrow> UnisonOscillator" where
  "Unison_reset u = u\<lparr>oscillators := map Oscillator_reset (oscillators u)\<rparr>"

section \<open>VintageProcessor.h\<close>

record VintageProcessor =
  driftPhase :: real

definition VintageProcessor_init :: VintageProcessor where
  "VintageProcessor_init = \<lparr>driftPhase = 0\<rparr>"

definition softClip :: "real \<Rightarrow> real" where
  "softClip sample = (let gain = 1.5 in tanh (sample * gain) * 0.8)"

text \<open>
  The function-local \<open>static juce::Random\<close> is state shared by all calls. Its algorithm
  is the library's; the model keeps the generator as the sequence of the values that
  \<open>nextFloat\<close> is going to return, each in \<open>[0, 1)\<close> by the library's contract.
\<close>

type_synonym random = "nat \<Rightarrow> real"

definition nextFloat :: "random \<Rightarrow> real \<times> random" where
  "nextFloat rnd = (rnd 0, \<lambda>n. rnd (Suc n))"

text \<open>
  \<open>addAnalogNoise\<close> computes in \<open>float\<close>: every product and the difference are rounded
  to binary32, and the literal \<open>0.0003f\<close> is the \<open>float\<close> nearest to \<open>0.0003\<close>.
\<close>

definition addAnalogNoise :: "bool \<Rightarrow> real \<Rightarrow> random \<Rightarrow> real \<times> random" where
  "addAnalogNoise enabled level rnd =
     (if \<not> enabled then (0, rnd)
      else let (r, rnd') = nextFloat rnd
           in (fl32 (fl32 (fl32 (fl32 (fl32 (r * 2) - 1) * fl32 0.0003) * level) * 100), rnd'))"

section \<open>Library components of a voice\<close>

text \<open>
  Modelled from the spec: the envelope generator is the library class \<open>juce::ADSR\<close>, whose
  code is not part of the sources. Section 4.3 of the specification gives its states and
  the three operations below: \<open>noteOn\<close> forces the transition to Attack whatever the state,
  \<open>noteOff\<close> forces the transition to Release from any active state, and \<open>isActive\<close> holds
  in every state but Idle. The comments of \<open>SynthVoice.cpp\<close> say the same of \<open>noteOff\<close>
  and \<open>isActive\<close>. The record keeps the state, the current output value and the four
  stage parameters of section 3.
\<close>

datatype EnvelopeState = Idle | Attack | Decay | Sustain | Release

record ADSR =
  envelopeState :: EnvelopeState
  envelopeVal :: real
  attackTime :: real
  decayTime :: real
  sustainLevel :: real
  releaseTime :: real

text \<open>Modelled from the spec: \<open>noteOn\<close> of section 4.3.\<close>

definition noteOn :: "ADSR \<Rightarrow> ADSR" where
  "noteOn a = a\<lparr>envelopeState := Attack\<rparr>"

text \<open>Modelled from the spec: \<open>noteOff\<close> of section 4.3.\<close>

definition noteOff :: "ADSR \<Rightarrow> ADSR" where
  "noteOff a = (if envelopeState a = Idle then a else a\<lparr>envelopeState := Release\<rparr>)"

text \<open>Modelled from the spec: \<open>isActive\<close> of section 4.3.\<close>

definition isActive :: "ADSR \<Rightarrow> bool" where
  "isActive a = (envelopeState a \<noteq> Idle)"

text \<open>
  The remaining library operations that a voice calls are parameters of the model: the
  specification leaves the curve of the envelope open, and the filter
  \<open>juce::dsp::StateVariableTPTFilter\<close> is used through three calls. \<open>'f\<close> is the state
  of the filter. Every theorem below holds for all values of these parameters.
\<close>

record 'f Library =
  ADSR_getNextSample :: "ADSR \<Rightarrow> real \<times> ADSR"
  setCutoffFrequency :: "real \<Rightarrow> 'f \<Rightarrow> 'f"
  setResonance :: "real \<Rightarrow> 'f \<Rightarrow> 'f"
  processSample :: "nat \<Rightarrow> real \<Rightarrow> 'f \<Rightarrow> real \<times> 'f"

text \<open>
  \<open>juce::MidiMessage::getMidiNoteInHertz\<close> with the reference pitch 440 Hz; the formula is
  the one the comment in \<open>startNote\<close> quotes.
\<close>

definition getMidiNoteInHertz :: "int \<Rightarrow> real" where
  "getMidiNoteInHertz midiNoteNumber = 440 * 2 powr ((of_int midiNoteNumber - 69) / 12)"

text \<open>
  \<open>juce::AudioBuffer<float>\<close>: one list of samples for each channel. \<open>addSample\<close> adds to
  one sample; an index outside the channel is an access outside the buffer.
\<close>

type_synonym AudioBuffer = "real list list"

definition getNumChannels :: "AudioBuffer \<Rightarrow> nat" where
  "getNumChannels buffer = length buffer"

definition addSample :: "nat \<Rightarrow> int \<Rightarrow> real \<Rightarrow> AudioBuffer \<Rightarrow> error + AudioBuffer" where
  "addSample channel sampleIndex valueToAdd buffer =
     (if channel < length buffer \<and> 0 \<le> sampleIndex \<and> nat sampleIndex < length (buffer ! channel)
      then Inr (buffer[channel := (buffer ! channel)
                  [nat sampleIndex := buffer ! channel ! nat sampleIndex + valueToAdd]])
      else Inl OutOfBounds)"

section \<open>SynthVoice\<close>

text \<open>
  The fields of \<open>SynthVoice\<close> in the order of the header. Of the base class
  \<open>juce::SynthesiserVoice\<close> the model keeps what the voice reads and writes: whether a note
  is assigned to the voice (\<open>clearCurrentNote\<close> ends that, making the voice Free) and the
  sample rate that \<open>getSampleRate\<close> returns.
\<close>

datatype VoiceState = Free | Playing

record 'f SynthVoice =
  oscillator :: UnisonOscillator
  level :: real
  currentFrequency :: real
  currentSampleRate :: real
  adsr :: ADSR
  filterAdsr :: ADSR
  filter' :: 'f
  baseCutoff :: real
  filterResonance :: real
  filterEnvAmount :: real
  noiseEnabled :: bool
  noiseLevel :: real
  vintageProcessor :: VintageProcessor
  voiceState :: VoiceState
  playbackSampleRate :: real

definition clearCurrentNote :: "'f SynthVoice \<Rightarrow> 'f SynthVoice" where
  "clearCurrentNote v = v\<lparr>voiceState := Free\<rparr>"

definition getSampleRate :: "'f SynthVoice \<Rightarrow> real" where
  "getSampleRate v = playbackSampleRate v"

definition startNote :: "int \<Rightarrow> real \<Rightarrow> 'f SynthVoice \<Rightarrow> error + 'f SynthVoice" where
  "startNote midiNoteNumber velocity v =
     (let v1 = v\<lparr>currentFrequency := getMidiNoteInHertz midiNoteNumber\<rparr>;
          v2 = v1\<lparr>currentSampleRate := getSampleRate v1\<rparr>
      in case Unison_setFrequency (currentFrequency v2) (currentSampleRate v2) (oscillator v2) of
           Inl e \<Rightarrow> Inl e
         | Inr osc \<Rightarrow>
             let v3 = v2\<lparr>oscillator := osc\<rparr>;
                 v4 = v3\<lparr>level := velocity * 0.15\<rparr>;
                 v5 = v4\<lparr>oscillator := Unison_reset (oscillator v4)\<rparr>;
                 v6 = v5\<lparr>adsr := noteOn (adsr v5)\<rparr>
             in Inr (v6\<lparr>filterAdsr := noteOn (filterAdsr v6)\<rparr>))"

definition stopNote :: "real \<Rightarrow> bool \<Rightarrow> 'f SynthVoice \<Rightarrow> 'f SynthVoice" where
  "stopNote velocity allowTailOff v =
     (let v1 = v\<lparr>adsr := noteOff (adsr v)\<rparr>;
          v2 = v1\<lparr>filterAdsr := noteOff (filterAdsr v1)\<rparr>
      in if \<not> allowTailOff \<or> \<not> isActive (adsr v2) then clearCurrentNote v2 else v2)"

definition updateFilter :: "'f Library \<Rightarrow> real \<Rightarrow> real \<Rightarrow> real \<Rightarrow> 'f SynthVoice \<Rightarrow> 'f SynthVoice" where
  "updateFilter L cutoff resonance envAmount v =
     v\<lparr>baseCutoff := cutoff, filterResonance := resonance, filterEnvAmount := envAmount,
       filter' := setResonance L resonance (filter' v)\<rparr>"

definition updateUnison :: "int \<Rightarrow> real \<Rightarrow> real \<Rightarrow> 'f SynthVoice \<Rightarrow> 'f SynthVoice" where
  "updateUnison voices detune stereo v =
     v\<lparr>oscillator := setStereoWidth stereo (setDetuneAmount detune (setNumVoices voices (oscillator v)))\<rparr>"

definition updateNoise :: "bool \<Rightarrow> real \<Rightarrow> 'f SynthVoice \<Rightarrow> 'f SynthVoice" where
  "updateNoise enable lvl v = v\<lparr>noiseEnabled := enable, noiseLevel := lvl / 100\<rparr>"

text \<open>The cutoff that one iteration of the render loop hands to the filter.\<close>

definition modulatedCutoff :: "real \<Rightarrow> real \<Rightarrow> real \<Rightarrow> real" where
  "modulatedCutoff cutoff envAmount filterEnvValue =
     (let modulation = filterEnvValue * (envAmount / 100) * 5000
      in jlimit 20 20000 (cutoff + modulation))"

text \<open>
  One iteration of the loop of \<open>renderNextBlock\<close> up to the two \<open>softClip\<close> calls (steps 1
  to 5 of the source): the value of the amplitude envelope, the two saturated channel
  values and the voice after the step.
\<close>

definition filteredSample ::
  "'f Library \<Rightarrow> 'f SynthVoice \<Rightarrow> error + ((real \<times> real \<times> real) \<times> 'f SynthVoice)" where
  "filteredSample L v =
     (let (envValue, a) = ADSR_getNextSample L (adsr v);
          (filterEnvValue, fa) = ADSR_getNextSample L (filterAdsr v);
          f1 = setCutoffFrequency L
                 (modulatedCutoff (baseCutoff v) (filterEnvAmount v) filterEnvValue) (filter' v)
      in case getNextSampleStereo (oscillator v) of
           Inl e \<Rightarrow> Inl e
         | Inr ((rawLeft, rawRight), osc) \<Rightarrow>
             let ampLeft = rawLeft * level v * envValue;
                 ampRight = rawRight * level v * envValue;
                 (filteredLeft, f2) = processSample L 0 ampLeft f1;
                 (filteredRight, f3) = processSample L 1 ampRight f2
             in Inr ((envValue, softClip filteredLeft, softClip filteredRight),
                     v\<lparr>adsr := a, filterAdsr := fa, filter' := f3, oscillator := osc\<rparr>))"

text \<open>The same iteration with the noise added: the two values that go to the buffer.\<close>

definition voiceSample ::
  "'f Library \<Rightarrow> 'f SynthVoice \<Rightarrow> random \<Rightarrow> error + ((real \<times> real) \<times> 'f SynthVoice \<times> random)" where
  "voiceSample L v rnd =
     (case filteredSample L v of
        Inl e \<Rightarrow> Inl e
      | Inr ((envValue, filteredLeft, filteredRight), v') \<Rightarrow>
          let (noise, rnd') = addAnalogNoise (noiseEnabled v) (noiseLevel v) rnd
          in Inr ((filteredLeft + noise * envValue, filteredRight + noise * envValue), v', rnd'))"

text \<open>Step 6: the two values are added to the channels that the buffer has.\<close>

definition addToBuffer :: "int \<Rightarrow> real \<times> real \<Rightarrow> AudioBuffer \<Rightarrow> error + AudioBuffer" where
  "addToBuffer startSample lr outputBuffer =
     (case (if getNumChannels outputBuffer > 0
            then addSample 0 startSample (fst lr) outputBuffer else Inr outputBuffer) of
        Inl e \<Rightarrow> Inl e
      | Inr b \<Rightarrow>
          if getNumChannels b > 1 then addSample 1 startSample (snd lr) b else Inr b)"

text \<open>
  The loop \<open>while (--numSamples >= 0)\<close>; the first argument counts the iterations left.
\<close>

fun renderLoop ::
  "'f Library \<Rightarrow> nat \<Rightarrow> int \<Rightarrow> AudioBuffer \<times> 'f SynthVoice \<times> random \<Rightarrow>
     error + (AudioBuffer \<times> 'f SynthVoice \<times> random)" where
  "renderLoop L 0 startSample st = Inr st"
| "renderLoop L (Suc k) startSample (outputBuffer, v, rnd) =
     (case voiceSample L v rnd of
        Inl e \<Rightarrow> Inl e
      | Inr (lr, v', rnd') \<Rightarrow>
          (case addToBuffer startSample lr outputBuffer of
             Inl e \<Rightarrow> Inl e
           | Inr b \<Rightarrow> renderLoop L k (startSample + 1) (b, v', rnd')))"

definition renderNextBlock ::
  "'f Library \<Rightarrow> AudioBuffer \<Rightarrow> int \<Rightarrow> int \<Rightarrow> 'f SynthVoice \<Rightarrow> random \<Rightarrow>
     error + (AudioBuffer \<times> 'f SynthVoice \<times> random)" where
  "renderNextBlock L outputBuffer startSample numSamples v rnd =
     (if \<not> isActive (adsr v) then Inr (outputBuffer, v, rnd)
      else case renderLoop L (nat numSamples) startSample (outputBuffer, v, rnd) of
             Inl e \<Rightarrow> Inl e
           | Inr (b, v', rnd') \<Rightarrow>
               Inr (b, if \<not> isActive (adsr v') then clearCurrentNote v' else v', rnd'))"

section \<open>Concrete states for the examples\<close>

text \<open>
  An idle envelope with the default values of the plug-in parameters attack, decay,
  sustain and release, and a voice as its constructor and member initialisers leave it,
  around a given filter state.
\<close>

definition ADSR_init :: ADSR where
  "ADSR_init =
     \<lparr>envelopeState = Idle, envelopeVal = 0, attackTime = 0.1, decayTime = 0.1,
      sustainLevel = 0.8, releaseTime = 0.1\<rparr>"

definition SynthVoice_init :: "'f \<Rightarrow> 'f SynthVoice" where
  "SynthVoice_init f =
     \<lparr>oscillator = UnisonOscillator_init, level = 0, currentFrequency = 0,
      currentSampleRate = 44100, adsr = ADSR_init, filterAdsr = ADSR_init, filter' = f,
      baseCutoff = 1000, filterResonance = 0.7, filterEnvAmount = 0,
      noiseEnabled = False, noiseLevel = 0.3, vintageProcessor = VintageProcessor_init,
      voiceState = Free, playbackSampleRate = 44100\<rparr>"

text \<open>
  An instance of the library parameters for the examples: the envelope returns its current
  value and stays as it is, the filter has no state and passes its input on. No theorem
  depends on this choice: the theorems hold for every instance, the examples are stated
  for this one.
\<close>

definition holdLibrary :: "unit Library" where
  "holdLibrary =
     \<lparr>ADSR_getNextSample = (\<lambda>a. (envelopeVal a, a)),
      setCutoffFrequency = (\<lambda>frequency f. f),
      setResonance = (\<lambda>resonance f. f),
      processSample = (\<lambda>channel inputValue f. (inputValue, f))\<rparr>"

text \<open>
  Two states for the examples: a bank of three triangle voices, all at the centre, and a
  sounding voice around it (amplitude envelope in Sustain, noise enabled).
\<close>

definition exampleUnison :: UnisonOscillator where
  "exampleUnison =
     setStereoWidth 0 (setNumVoices 3 (Unison_setWaveform Triangle UnisonOscillator_init))"

definition soundingVoice :: "unit SynthVoice" where
  "soundingVoice =
     (SynthVoice_init ())
       \<lparr>oscillator := exampleUnison, level := 3/20,
        adsr := ADSR_init\<lparr>envelopeState := Sustain, envelopeVal := 4/5\<rparr>,
        noiseEnabled := True, voiceState := Playing\<rparr>"

text \<open>
  A square oscillator at the phase \<open>t\<close> after \<open>setFrequency (2205, 44100)\<close>: the increment
  is the quotient rounded to \<open>double\<close>, as the member \<open>phaseDelta\<close> stores it.
\<close>

definition squareOscillator :: "real \<Rightarrow> Oscillator" where
  "squareOscillator t =
     \<lparr>currentWaveform = Square, currentPhase = t, phaseDelta = fl64 (2205 / 44100)\<rparr>"

section \<open>Rounding\<close>

text \<open>Powers of two, and the binade of a number.\<close>

lemma pow2_powr: "pow2 e = 2 powr (of_int e)"
proof (cases "0 \<le> e")
  case True
  then have "2 powr (of_int e) = (2::real) powr (real (nat e))" by simp
  also have "\<dots> = 2 ^ nat e" by (simp add: powr_realpow)
  finally show ?thesis using True by (simp add: pow2_def)
next
  case False
  then have "2 powr (of_int e) = (2::real) powr (- real (nat (- e)))" by simp
  also have "\<dots> = 1 / 2 powr (real (nat (- e)))" by (simp add: powr_minus divide_inverse)
  also have "\<dots> = 1 / 2 ^ nat (- e)" by (simp add: powr_realpow)
  finally show ?thesis using False by (simp add: pow2_def)
qed

lemma pow2_pos [simp]: "0 < pow2 e"
  by (simp add: pow2_powr)

lemma pow2_nonneg [simp]: "0 \<le> pow2 e"
  using pow2_pos[of e] by linarith

lemma abs_pow2 [simp]: "\<bar>pow2 e\<bar> = pow2 e"
  by simp

lemma pow2_neq_zero [simp]: "pow2 e \<noteq> 0"
  using pow2_pos[of e] by linarith

lemma pow2_add: "pow2 (a + b) = pow2 a * pow2 b"
  by (simp add: pow2_powr powr_add)

lemma pow2_mono: "a \<le> b \<Longrightarrow> pow2 a \<le> pow2 b"
  by (simp add: pow2_powr)

lemma pow2_strict_mono: "a < b \<Longrightarrow> pow2 a < pow2 b"
  by (simp add: pow2_powr)

lemma pow2_nat: "0 \<le> e \<Longrightarrow> pow2 e = of_int (2 ^ nat e)"
  by (simp add: pow2_def)

lemma floor_log_eq:
  assumes "pow2 k \<le> \<bar>x\<bar>" "\<bar>x\<bar> < pow2 (k + 1)"
  shows "\<lfloor>log 2 \<bar>x\<bar>\<rfloor> = k"
proof -
  have pos: "0 < \<bar>x\<bar>" using assms(1) pow2_pos[of k] by linarith
  have "of_int k \<le> log 2 \<bar>x\<bar>"
    using assms(1) pos by (simp add: le_log_iff pow2_powr)
  moreover have "log 2 \<bar>x\<bar> < of_int k + 1"
    using assms(2) pos by (simp add: log_less_iff pow2_powr)
  ultimately show ?thesis by (simp add: floor_eq_iff)
qed

lemma floor_log_bounds:
  assumes "x \<noteq> 0"
  shows "pow2 \<lfloor>log 2 \<bar>x\<bar>\<rfloor> \<le> \<bar>x\<bar>" "\<bar>x\<bar> < pow2 (\<lfloor>log 2 \<bar>x\<bar>\<rfloor> + 1)"
proof -
  have pos: "0 < \<bar>x\<bar>" using assms by simp
  have "of_int \<lfloor>log 2 \<bar>x\<bar>\<rfloor> \<le> log 2 \<bar>x\<bar>" by simp
  then have "2 powr (of_int \<lfloor>log 2 \<bar>x\<bar>\<rfloor>) \<le> \<bar>x\<bar>"
    using pos by (subst (asm) le_log_iff) simp_all
  then show "pow2 \<lfloor>log 2 \<bar>x\<bar>\<rfloor> \<le> \<bar>x\<bar>"
    by (simp only: pow2_powr)
  have "log 2 \<bar>x\<bar> < of_int (\<lfloor>log 2 \<bar>x\<bar>\<rfloor> + 1)" by linarith
  then have "\<bar>x\<bar> < 2 powr (of_int (\<lfloor>log 2 \<bar>x\<bar>\<rfloor> + 1))"
    using pos by (subst (asm) log_less_iff) simp_all
  then show "\<bar>x\<bar> < pow2 (\<lfloor>log 2 \<bar>x\<bar>\<rfloor> + 1)"
    by (simp only: pow2_powr)
qed

lemma roundTo_eval:
  assumes "pow2 k \<le> \<bar>x\<bar>" "\<bar>x\<bar> < pow2 (k + 1)"
  shows "roundTo p emin x =
           of_int (roundHalfEven (x / pow2 (max (k - int p + 1) emin))) * pow2 (max (k - int p + 1) emin)"
proof -
  have "0 < \<bar>x\<bar>" by (rule less_le_trans[OF pow2_pos assms(1)])
  then have "x \<noteq> 0" by simp
  then show ?thesis using floor_log_eq[OF assms] by (simp add: roundTo_def Let_def)
qed

lemma roundHalfEven_cases:
  "roundHalfEven q = \<lfloor>q\<rfloor> \<or> roundHalfEven q = \<lfloor>q\<rfloor> + 1"
  by (simp add: roundHalfEven_def Let_def)

lemma roundHalfEven_of_int [simp]: "roundHalfEven (of_int n) = n"
  by (simp add: roundHalfEven_def Let_def)

lemma roundHalfEven_error: "\<bar>of_int (roundHalfEven q) - q\<bar> \<le> 1/2"
proof -
  have "of_int \<lfloor>q\<rfloor> \<le> q" "q < of_int \<lfloor>q\<rfloor> + 1" by linarith+
  then show ?thesis by (auto simp: roundHalfEven_def Let_def abs_le_iff)
qed

lemma roundHalfEven_mono:
  assumes "q \<le> q'"
  shows "roundHalfEven q \<le> roundHalfEven q'"
proof (cases "\<lfloor>q\<rfloor> = \<lfloor>q'\<rfloor>")
  case True
  have "q - of_int \<lfloor>q'\<rfloor> \<le> q' - of_int \<lfloor>q'\<rfloor>" using assms by simp
  then show ?thesis using True by (auto simp: roundHalfEven_def Let_def)
next
  case False
  have "\<lfloor>q\<rfloor> \<le> \<lfloor>q'\<rfloor>" using assms by (rule floor_mono)
  then have "\<lfloor>q\<rfloor> + 1 \<le> \<lfloor>q'\<rfloor>" using False by linarith
  moreover have "roundHalfEven q \<le> \<lfloor>q\<rfloor> + 1" using roundHalfEven_cases[of q] by linarith
  moreover have "\<lfloor>q'\<rfloor> \<le> roundHalfEven q'" using roundHalfEven_cases[of q'] by linarith
  ultimately show ?thesis by linarith
qed

lemma roundHalfEven_le: "q \<le> of_int n \<Longrightarrow> roundHalfEven q \<le> n"
  using roundHalfEven_mono[of q "of_int n"] by simp

lemma roundHalfEven_ge: "of_int n \<le> q \<Longrightarrow> n \<le> roundHalfEven q"
  using roundHalfEven_mono[of "of_int n" q] by simp

lemma roundTo_zero [simp]: "roundTo p emin 0 = 0"
  by (simp add: roundTo_def)

lemma roundTo_nonneg:
  assumes "0 \<le> x"
  shows "0 \<le> roundTo p emin x"
proof (cases "x = 0")
  case True
  then show ?thesis by simp
next
  case False
  define e where "e = max (\<lfloor>log 2 \<bar>x\<bar>\<rfloor> - int p + 1) emin"
  have "of_int 0 \<le> x / pow2 e" using assms by simp
  then have "0 \<le> roundHalfEven (x / pow2 e)" by (rule roundHalfEven_ge)
  then show ?thesis using False by (simp add: roundTo_def Let_def e_def)
qed

text \<open>A multiple of a power of two with fewer than \<open>p\<close> bits is representable.\<close>

lemma roundTo_exact:
  assumes x: "x = of_int n * pow2 e" and n: "\<bar>n\<bar> < 2 ^ p" and e: "emin \<le> e"
  shows "roundTo p emin x = x"
proof (cases "x = 0")
  case True
  then show ?thesis by simp
next
  case False
  define k where "k = \<lfloor>log 2 \<bar>x\<bar>\<rfloor>"
  define q where "q = max (k - int p + 1) emin"
  have "\<bar>x\<bar> = of_int \<bar>n\<bar> * pow2 e" by (simp add: x abs_mult)
  also have "\<dots> < of_int (2 ^ p) * pow2 e" using n by (simp del: of_int_power)
  also have "\<dots> = pow2 (int p + e)" by (simp add: pow2_add pow2_nat)
  finally have "\<bar>x\<bar> < pow2 (int p + e)" .
  moreover have "pow2 k \<le> \<bar>x\<bar>" using floor_log_bounds(1)[OF False] by (simp add: k_def)
  ultimately have "pow2 k < pow2 (int p + e)" by linarith
  then have "k < int p + e" by (simp add: pow2_powr)
  then have qe: "q \<le> e" using e by (simp add: q_def)
  define m where "m = n * 2 ^ nat (e - q)"
  have "pow2 e = pow2 (e - q) * pow2 q" by (simp add: pow2_add[symmetric])
  also have "pow2 (e - q) = of_int (2 ^ nat (e - q))" using qe by (simp add: pow2_nat)
  finally have "x = of_int m * pow2 q" by (simp add: x m_def)
  then have "x / pow2 q = of_int m" by simp
  then have "of_int (roundHalfEven (x / pow2 q)) * pow2 q = x"
    using \<open>x = of_int m * pow2 q\<close> by simp
  then show ?thesis using False by (simp add: roundTo_def Let_def k_def q_def)
qed

text \<open>Every result is a multiple of its quantum with at most \<open>2 ^ p\<close> as the factor.\<close>

lemma roundTo_form:
  assumes "x \<noteq> 0" "0 < p"
  shows "\<exists>n e. roundTo p emin x = of_int n * pow2 e \<and> \<bar>n\<bar> \<le> 2 ^ p \<and> emin \<le> e"
proof -
  define k where "k = \<lfloor>log 2 \<bar>x\<bar>\<rfloor>"
  define e where "e = max (k - int p + 1) emin"
  define n where "n = roundHalfEven (x / pow2 e)"
  have r: "roundTo p emin x = of_int n * pow2 e"
    using assms(1) by (simp add: roundTo_def Let_def k_def e_def n_def)
  have "\<bar>x\<bar> < pow2 (k + 1)" using floor_log_bounds(2)[OF assms(1)] by (simp add: k_def)
  also have "\<dots> \<le> pow2 (int p + e)" by (rule pow2_mono) (simp add: e_def)
  also have "\<dots> = of_int (2 ^ p) * pow2 e" by (simp add: pow2_add pow2_nat)
  finally have "\<bar>x\<bar> / pow2 e < of_int (2 ^ p)" by (simp add: field_simps del: of_int_power)
  then have b: "x / pow2 e \<le> of_int (2 ^ p)" "of_int (- (2 ^ p)) \<le> x / pow2 e"
    by (simp_all add: abs_less_iff field_simps del: of_int_power)
  have "n \<le> 2 ^ p" unfolding n_def using b(1) by (rule roundHalfEven_le)
  moreover have "- (2 ^ p) \<le> n" unfolding n_def using b(2) by (rule roundHalfEven_ge)
  ultimately have "\<bar>n\<bar> \<le> 2 ^ p" by linarith
  moreover have "emin \<le> e" by (simp add: e_def)
  ultimately show ?thesis using r by blast
qed

lemma roundTo_idem:
  assumes "0 < p"
  shows "roundTo p emin (roundTo p emin x) = roundTo p emin x"
proof (cases "x = 0")
  case True
  then show ?thesis by simp
next
  case False
  obtain n e where r: "roundTo p emin x = of_int n * pow2 e" and n: "\<bar>n\<bar> \<le> 2 ^ p"
    and e: "emin \<le> e"
    using roundTo_form[OF False assms, of emin] by blast
  show ?thesis
  proof (cases "\<bar>n\<bar> < 2 ^ p")
    case True
    show ?thesis by (rule roundTo_exact[OF r True e])
  next
    case F: False
    then have "\<bar>n\<bar> = 2 ^ p" using n by linarith
    then have "n = 2 * (if 0 \<le> n then 2 ^ (p - 1) else - (2 ^ (p - 1)))"
      using assms by (cases p) (auto simp: abs_if split: if_splits)
    moreover define m :: int where "m = (if 0 \<le> n then 2 ^ (p - 1) else - (2 ^ (p - 1)))"
    ultimately have nm: "n = 2 * m" by simp
    have "pow2 1 = 2" by (simp add: pow2_def)
    then have "pow2 (e + 1) = 2 * pow2 e" by (simp add: pow2_add)
    then have r': "roundTo p emin x = of_int m * pow2 (e + 1)" using r nm by simp
    have "\<bar>m\<bar> < 2 ^ p" using assms by (cases p) (auto simp: m_def)
    moreover have "emin \<le> e + 1" using e by simp
    ultimately show ?thesis using roundTo_exact[OF r'] by blast
  qed
qed

lemma roundTo_mono:
  assumes "0 \<le> x" "x \<le> y" "0 < p"
  shows "roundTo p emin x \<le> roundTo p emin y"
proof (cases "x = 0")
  case True
  then show ?thesis using roundTo_nonneg[of y p emin] assms by simp
next
  case False
  then have xp: "0 < x" and yp: "0 < y" using assms by linarith+
  define kx where "kx = \<lfloor>log 2 \<bar>x\<bar>\<rfloor>"
  define ky where "ky = \<lfloor>log 2 \<bar>y\<bar>\<rfloor>"
  define ex where "ex = max (kx - int p + 1) emin"
  define ey where "ey = max (ky - int p + 1) emin"
  have rx: "roundTo p emin x = of_int (roundHalfEven (x / pow2 ex)) * pow2 ex"
    using xp by (simp add: roundTo_def Let_def kx_def ex_def)
  have ry: "roundTo p emin y = of_int (roundHalfEven (y / pow2 ey)) * pow2 ey"
    using yp by (simp add: roundTo_def Let_def ky_def ey_def)
  have "log 2 \<bar>x\<bar> \<le> log 2 \<bar>y\<bar>" using xp assms(2) by simp
  then have k: "kx \<le> ky" unfolding kx_def ky_def by (rule floor_mono)
  then have e: "ex \<le> ey" by (simp add: ex_def ey_def)
  show ?thesis
  proof (cases "ex = ey")
    case True
    have "x / pow2 ey \<le> y / pow2 ey" using assms(2) by (intro divide_right_mono) simp_all
    then have "roundHalfEven (x / pow2 ey) \<le> roundHalfEven (y / pow2 ey)"
      by (rule roundHalfEven_mono)
    then have "of_int (roundHalfEven (x / pow2 ey)) * pow2 ey
        \<le> of_int (roundHalfEven (y / pow2 ey)) * pow2 ey"
      by (simp add: mult_right_mono)
    then show ?thesis using rx ry True by simp
  next
    case False
    then have lt: "ex < ey" using e by linarith
    then have eyk: "ey = ky - int p + 1" unfolding ex_def ey_def by linarith
    have exk: "kx - int p + 1 \<le> ex" by (simp add: ex_def)
    have kk: "kx + 1 \<le> ky" using lt eyk exk by linarith
    have d: "0 \<le> ky - ex" using lt eyk assms(3) by linarith
    \<comment> \<open>the lower value rounds to at most \<open>pow2 ky\<close>\<close>
    have "x < pow2 (kx + 1)"
      using floor_log_bounds(2)[of x] xp by (simp add: kx_def)
    also have "\<dots> \<le> pow2 ky" using kk by (rule pow2_mono)
    also have "\<dots> = pow2 (ky - ex) * pow2 ex" by (simp add: pow2_add[symmetric])
    also have "pow2 (ky - ex) = of_int (2 ^ nat (ky - ex))" using d by (simp add: pow2_nat)
    finally have "x / pow2 ex \<le> of_int (2 ^ nat (ky - ex))"
      by (simp add: field_simps del: of_int_power)
    then have "roundHalfEven (x / pow2 ex) \<le> 2 ^ nat (ky - ex)" by (rule roundHalfEven_le)
    then have "of_int (roundHalfEven (x / pow2 ex)) * pow2 ex
        \<le> of_int (2 ^ nat (ky - ex)) * pow2 ex"
      by (intro mult_right_mono) (simp_all del: of_int_power)
    also have "\<dots> = pow2 (ky - ex) * pow2 ex" using d by (simp add: pow2_nat)
    also have "\<dots> = pow2 ky" by (simp add: pow2_add[symmetric])
    finally have ux: "roundTo p emin x \<le> pow2 ky" using rx by simp
    \<comment> \<open>the upper value rounds to at least \<open>pow2 ky\<close>\<close>
    have p1: "0 \<le> int p - 1" using assms(3) by simp
    have "pow2 ky = pow2 (int p - 1) * pow2 ey" by (simp add: pow2_add[symmetric] eyk)
    also have "pow2 (int p - 1) = of_int (2 ^ nat (int p - 1))" using p1 by (simp add: pow2_nat)
    finally have py: "pow2 ky = of_int (2 ^ nat (int p - 1)) * pow2 ey" .
    have "pow2 ky \<le> y" using floor_log_bounds(1)[of y] yp by (simp add: ky_def)
    then have "of_int (2 ^ nat (int p - 1)) \<le> y / pow2 ey"
      using py by (simp add: field_simps del: of_int_power)
    then have "2 ^ nat (int p - 1) \<le> roundHalfEven (y / pow2 ey)" by (rule roundHalfEven_ge)
    then have "of_int (2 ^ nat (int p - 1)) * pow2 ey
        \<le> of_int (roundHalfEven (y / pow2 ey)) * pow2 ey"
      by (intro mult_right_mono) (simp_all del: of_int_power)
    then have "pow2 ky \<le> roundTo p emin y" using py ry by simp
    then show ?thesis using ux by linarith
  qed
qed

text \<open>The rounding error is at most half a quantum.\<close>

lemma roundTo_error:
  assumes "\<bar>x\<bar> < pow2 (k + 1)"
  shows "\<bar>roundTo p emin x - x\<bar> \<le> pow2 (max (k - int p + 1) emin) / 2"
proof (cases "x = 0")
  case True
  then show ?thesis by simp
next
  case False
  define e where "e = max (\<lfloor>log 2 \<bar>x\<bar>\<rfloor> - int p + 1) emin"
  have "pow2 \<lfloor>log 2 \<bar>x\<bar>\<rfloor> < pow2 (k + 1)"
    using floor_log_bounds(1)[OF False] assms by linarith
  then have "\<lfloor>log 2 \<bar>x\<bar>\<rfloor> < k + 1" by (simp add: pow2_powr)
  then have "e \<le> max (k - int p + 1) emin" by (simp add: e_def)
  then have le: "pow2 e \<le> pow2 (max (k - int p + 1) emin)" by (rule pow2_mono)
  have "roundTo p emin x - x = (of_int (roundHalfEven (x / pow2 e)) - x / pow2 e) * pow2 e"
    using False by (simp add: roundTo_def Let_def e_def algebra_simps)
  then have "\<bar>roundTo p emin x - x\<bar> = \<bar>of_int (roundHalfEven (x / pow2 e)) - x / pow2 e\<bar> * pow2 e"
    by (simp add: abs_mult)
  also have "\<dots> \<le> 1/2 * pow2 e"
    by (intro mult_right_mono roundHalfEven_error) simp
  finally show ?thesis using le by simp
qed

lemma roundHalfEven_minus: "roundHalfEven (- q) = - roundHalfEven q"
proof (cases "q = of_int \<lfloor>q\<rfloor>")
  case True
  then have "roundHalfEven q = \<lfloor>q\<rfloor>"
    using roundHalfEven_of_int[of "\<lfloor>q\<rfloor>"] by simp
  moreover have "- q = of_int (- \<lfloor>q\<rfloor>)" using True by simp
  then have "roundHalfEven (- q) = - \<lfloor>q\<rfloor>"
    using roundHalfEven_of_int[of "- \<lfloor>q\<rfloor>"] by simp
  ultimately show ?thesis by simp
next
  case False
  have b: "of_int \<lfloor>q\<rfloor> < q" "q < of_int \<lfloor>q\<rfloor> + 1"
    using False by linarith+
  have "- of_int \<lfloor>q\<rfloor> - 1 \<le> - q" "- q < - of_int \<lfloor>q\<rfloor> - 1 + 1"
    using b by linarith+
  then have f: "\<lfloor>- q\<rfloor> = - \<lfloor>q\<rfloor> - 1"
    by (intro floor_unique) simp_all
  show ?thesis
    using b by (auto simp: roundHalfEven_def Let_def f)
qed

lemma roundTo_minus: "roundTo p emin (- x) = - roundTo p emin x"
  by (simp add: roundTo_def Let_def roundHalfEven_minus)

lemma roundTo_abs_le:
  assumes "\<bar>x\<bar> \<le> y" "0 < p"
  shows "\<bar>roundTo p emin x\<bar> \<le> roundTo p emin y"
proof (cases "0 \<le> x")
  case True
  then have "roundTo p emin x \<le> roundTo p emin y"
    using assms by (intro roundTo_mono) simp_all
  moreover have "0 \<le> roundTo p emin x" using True by (rule roundTo_nonneg)
  ultimately show ?thesis by simp
next
  case False
  then have "roundTo p emin (- x) \<le> roundTo p emin y"
    using assms by (intro roundTo_mono) simp_all
  moreover have "0 \<le> roundTo p emin (- x)" using False by (intro roundTo_nonneg) simp
  ultimately show ?thesis by (simp add: roundTo_minus)
qed

text \<open>Evaluation of the two formats, and values that are representable.\<close>

lemmas fl64_eval = fl64_def pow2_def roundHalfEven_def Let_def
lemmas fl32_eval = fl32_def pow2_def roundHalfEven_def Let_def

lemma fl64_zero [simp]: "fl64 0 = 0"
  by (simp add: fl64_def)

lemma fl32_zero [simp]: "fl32 0 = 0"
  by (simp add: fl32_def)

lemma fl64_one [simp]: "fl64 1 = 1"
  by (simp add: fl64_eval roundTo_eval[where k = 0])

lemma fl64_minus_one [simp]: "fl64 (- 1) = - 1"
  by (simp add: fl64_eval roundTo_eval[where k = 0])

lemma fl32_one [simp]: "fl32 1 = 1"
  by (simp add: fl32_eval roundTo_eval[where k = 0])

lemma fl32_minus_one [simp]: "fl32 (- 1) = - 1"
  by (simp add: fl32_eval roundTo_eval[where k = 0])

lemma fl32_two [simp]: "fl32 2 = 2"
  by (simp add: fl32_eval roundTo_eval[where k = 1])

lemma fl32_abs_le: "\<bar>x\<bar> \<le> y \<Longrightarrow> \<bar>fl32 x\<bar> \<le> fl32 y"
  unfolding fl32_def by (rule roundTo_abs_le) simp_all

lemma fl32_minus: "fl32 (- x) = - fl32 x"
  by (simp add: fl32_def roundTo_minus)

lemma isDouble_fl64: "isDouble (fl64 x)"
  by (simp add: isDouble_def fl64_def roundTo_idem)

text \<open>The largest \<open>double\<close> below \<open>1\<close> is \<open>1 - 1 / 2 ^ 53\<close>.\<close>

lemma double_below_one:
  assumes "isDouble x" "x < 1"
  shows "x \<le> 1 - 1 / 2 ^ 53"
proof (rule ccontr)
  assume "\<not> x \<le> 1 - 1 / 2 ^ 53"
  then have lo: "1 - 1 / 2 ^ 53 < x" by simp
  have b: "pow2 (- 1) \<le> \<bar>x\<bar>" "\<bar>x\<bar> < pow2 (- 1 + 1)"
    using lo assms(2) by (simp_all add: pow2_def)
  define N where "N = roundHalfEven (x / pow2 (- 53))"
  have "fl64 x = of_int N * pow2 (- 53)"
    using roundTo_eval[OF b, of 53 "- 1074"] by (simp add: fl64_def N_def)
  then have "x = of_int N * pow2 (- 53)" using assms(1) by (simp add: isDouble_def)
  then have x: "x = of_int N / 2 ^ 53" by (simp add: pow2_def)
  have "of_int N < (2 ^ 53 :: real)" using assms(2) by (simp add: x)
  then have "N < 2 ^ 53" by (simp only: of_int_less_numeral_power_cancel_iff)
  moreover have "(2 ^ 53 - 1 :: real) < of_int N" using lo by (simp add: x field_simps)
  then have "of_int (2 ^ 53 - 1) < (of_int N :: real)" by simp
  then have "2 ^ 53 - 1 < N" by (simp only: of_int_less_iff)
  ultimately show False by linarith
qed

text \<open>A \<open>double\<close> in \<open>[1, 2)\<close> minus \<open>1\<close> is a \<open>double\<close>: the wrap of the phase is exact.\<close>

lemma double_minus_one:
  assumes "isDouble s" "1 \<le> s" "s < 2"
  shows "fl64 (s - 1) = s - 1"
proof -
  have b: "pow2 0 \<le> \<bar>s\<bar>" "\<bar>s\<bar> < pow2 (0 + 1)"
    using assms(2,3) by (simp_all add: pow2_def)
  define N where "N = roundHalfEven (s / pow2 (- 52))"
  have "fl64 s = of_int N * pow2 (- 52)"
    using roundTo_eval[OF b, of 53 "- 1074"] by (simp add: fl64_def N_def)
  then have s: "s = of_int N * pow2 (- 52)" using assms(1) by (simp add: isDouble_def)
  then have s': "s = of_int N / 2 ^ 52" by (simp add: pow2_def)
  have "of_int N < (2 * 2 ^ 52 :: real)" using assms(3) by (simp add: s')
  then have "of_int N < (of_int (2 * 2 ^ 52) :: real)" by simp
  then have u: "N < 2 * 2 ^ 52" by (simp only: of_int_less_iff)
  have "(2 ^ 52 :: real) \<le> of_int N" using assms(2) by (simp add: s')
  then have "(of_int (2 ^ 52) :: real) \<le> of_int N" by simp
  then have l: "2 ^ 52 \<le> N" by (simp only: of_int_le_iff)
  have e: "s - 1 = of_int (N - 2 ^ 52) * pow2 (- 52)"
    by (simp add: s pow2_def field_simps)
  have n: "\<bar>N - 2 ^ 52\<bar> < 2 ^ 53" using u l by simp
  show ?thesis unfolding fl64_def by (rule roundTo_exact[OF e n]) simp
qed

lemma fl64_below_two: "fl64 (2 - 1 / 2 ^ 52) = 2 - 1 / 2 ^ 52"
proof -
  have e: "(2 - 1 / 2 ^ 52 :: real) = of_int (2 ^ 53 - 1) * pow2 (- 52)"
    by (simp add: pow2_def)
  have n: "\<bar>2 ^ 53 - 1 :: int\<bar> < 2 ^ 53" by simp
  show ?thesis unfolding fl64_def by (rule roundTo_exact[OF e n]) simp
qed

section \<open>The oscillator\<close>

text \<open>A phase in \<open>[0, 1)\<close> reaches no division by zero, whatever the increment.\<close>

lemma fmod_one: "0 \<le> x \<Longrightarrow> 0 \<le> fmod x 1 \<and> fmod x 1 < 1"
  by (simp add: fmod_def) linarith

lemma polyBlep_defined:
  assumes "0 \<le> t" "t < 1"
  shows "\<exists>b. polyBlep t dt = Inr b"
proof (cases "dt = 0")
  case True
  then show ?thesis using assms by (simp add: polyBlep_def)
next
  case False
  then show ?thesis by (simp add: polyBlep_def Let_def)
qed

lemma waveformSample_defined:
  assumes "0 \<le> t" "t < 1"
  shows "\<exists>s. waveformSample w t dt = Inr s"
proof -
  have "0 \<le> fl64 (t + 0.5)"
    unfolding fl64_def using assms(1) by (intro roundTo_nonneg) simp
  then have t2: "0 \<le> fmod (fl64 (t + 0.5)) 1" "fmod (fl64 (t + 0.5)) 1 < 1"
    using fmod_one by blast+
  obtain b1 where b1: "polyBlep t dt = Inr b1"
    using polyBlep_defined[OF assms] by blast
  obtain b2 where b2: "polyBlep (fmod (fl64 (t + 0.5)) 1) dt = Inr b2"
    using polyBlep_defined[OF t2] by blast
  show ?thesis using b1 b2 by (cases w) (simp_all add: waveformSample_def)
qed

text \<open>
  The increment that \<open>setFrequency (2205, 44100)\<close> stores is the \<open>double\<close> nearest to
  \<open>1 / 20\<close>. From the phase \<open>0\<close> the square oscillator passes through the phases below,
  each the rounded sum of the one before and the increment.
\<close>

lemma delta_2205: "fl64 (2205 / 44100) = 3602879701896397 / 72057594037927936"
  by (simp add: fl64_eval roundTo_eval[where k = "-5"])

lemma squareOscillator_value:
  "squareOscillator t =
     \<lparr>currentWaveform = Square, currentPhase = t, phaseDelta = 3602879701896397 / 72057594037927936\<rparr>"
  by (simp only: squareOscillator_def delta_2205)

lemma square_step:
  assumes "0 \<le> t" "t < 1"
  shows "getNextSamples (Suc n) (squareOscillator t)
           = getNextSamples n (squareOscillator (advancePhase t (3602879701896397 / 72057594037927936)))"
proof -
  obtain s where "waveformSample Square t (3602879701896397 / 72057594037927936) = Inr s"
    using waveformSample_defined[OF assms] by blast
  then show ?thesis by (simp add: squareOscillator_value Oscillator_getNextSample_def)
qed

lemma square_phase_1:
  "advancePhase 0 (3602879701896397 / 72057594037927936) = 3602879701896397 / 72057594037927936"
  by (simp add: advancePhase_def fl64_eval roundTo_eval[where k = "-5"])

lemma square_phase_2:
  "advancePhase (3602879701896397 / 72057594037927936) (3602879701896397 / 72057594037927936) = 3602879701896397 / 36028797018963968"
  by (simp add: advancePhase_def fl64_eval roundTo_eval[where k = "-4"])

lemma square_phase_3:
  "advancePhase (3602879701896397 / 36028797018963968) (3602879701896397 / 72057594037927936) = 1351079888211149 / 9007199254740992"
  by (simp add: advancePhase_def fl64_eval roundTo_eval[where k = "-3"])

lemma square_phase_4:
  "advancePhase (1351079888211149 / 9007199254740992) (3602879701896397 / 72057594037927936) = 3602879701896397 / 18014398509481984"
  by (simp add: advancePhase_def fl64_eval roundTo_eval[where k = "-3"])

lemma square_phase_5:
  "advancePhase (3602879701896397 / 18014398509481984) (3602879701896397 / 72057594037927936) = 1 / 4"
  by (simp add: advancePhase_def fl64_eval roundTo_eval[where k = "-2"])

lemma square_phase_6:
  "advancePhase (1 / 4) (3602879701896397 / 72057594037927936) = 5404319552844595 / 18014398509481984"
  by (simp add: advancePhase_def fl64_eval roundTo_eval[where k = "-2"])

lemma square_phase_7:
  "advancePhase (5404319552844595 / 18014398509481984) (3602879701896397 / 72057594037927936) = 3152519739159347 / 9007199254740992"
  by (simp add: advancePhase_def fl64_eval roundTo_eval[where k = "-2"])

lemma square_phase_8:
  "advancePhase (3152519739159347 / 9007199254740992) (3602879701896397 / 72057594037927936) = 7205759403792793 / 18014398509481984"
  by (simp add: advancePhase_def fl64_eval roundTo_eval[where k = "-2"])

lemma square_phase_9:
  "advancePhase (7205759403792793 / 18014398509481984) (3602879701896397 / 72057594037927936) = 2026619832316723 / 4503599627370496"
  by (simp add: advancePhase_def fl64_eval roundTo_eval[where k = "-2"])

lemma square_phase_10:
  "advancePhase (2026619832316723 / 4503599627370496) (3602879701896397 / 72057594037927936) = 9007199254740991 / 18014398509481984"
  by (simp add: advancePhase_def fl64_eval roundTo_eval[where k = "-2"])

lemma square_phase_11:
  "advancePhase (9007199254740991 / 18014398509481984) (3602879701896397 / 72057594037927936) = 4953959590107545 / 9007199254740992"
  by (simp add: advancePhase_def fl64_eval roundTo_eval[where k = "-1"])

text \<open>Ten calls from the phase \<open>0\<close> lead to the largest \<open>double\<close> below \<open>1 / 2\<close>.\<close>

lemma square_run:
  "getNextSamples 10 (squareOscillator 0)
     = Inr (squareOscillator (9007199254740991 / 18014398509481984))"
proof -
  have "getNextSamples 10 (squareOscillator 0)
      = getNextSamples 9 (squareOscillator (3602879701896397 / 72057594037927936))"
    using square_step[of 0 9] by (simp add: square_phase_1)
  also have "\<dots> = getNextSamples 8 (squareOscillator (3602879701896397 / 36028797018963968))"
    using square_step[of "3602879701896397 / 72057594037927936" 8] by (simp add: square_phase_2)
  also have "\<dots> = getNextSamples 7 (squareOscillator (1351079888211149 / 9007199254740992))"
    using square_step[of "3602879701896397 / 36028797018963968" 7] by (simp add: square_phase_3)
  also have "\<dots> = getNextSamples 6 (squareOscillator (3602879701896397 / 18014398509481984))"
    using square_step[of "1351079888211149 / 9007199254740992" 6] by (simp add: square_phase_4)
  also have "\<dots> = getNextSamples 5 (squareOscillator (1 / 4))"
    using square_step[of "3602879701896397 / 18014398509481984" 5] by (simp add: square_phase_5)
  also have "\<dots> = getNextSamples 4 (squareOscillator (5404319552844595 / 18014398509481984))"
    using square_step[of "1 / 4" 4] by (simp add: square_phase_6)
  also have "\<dots> = getNextSamples 3 (squareOscillator (3152519739159347 / 9007199254740992))"
    using square_step[of "5404319552844595 / 18014398509481984" 3] by (simp add: square_phase_7)
  also have "\<dots> = getNextSamples 2 (squareOscillator (7205759403792793 / 18014398509481984))"
    using square_step[of "3152519739159347 / 9007199254740992" 2] by (simp add: square_phase_8)
  also have "\<dots> = Inr (squareOscillator (9007199254740991 / 18014398509481984))"
  proof -
    have a: "getNextSamples (Suc 0) (squareOscillator (2026619832316723 / 4503599627370496))
        = getNextSamples 0 (squareOscillator (advancePhase (2026619832316723 / 4503599627370496)
            (3602879701896397 / 72057594037927936)))"
      by (rule square_step) simp_all
    have b: "getNextSamples (Suc (Suc 0)) (squareOscillator (7205759403792793 / 18014398509481984))
        = getNextSamples (Suc 0) (squareOscillator (advancePhase
            (7205759403792793 / 18014398509481984) (3602879701896397 / 72057594037927936)))"
      by (rule square_step) simp_all
    show ?thesis
      by (simp only: numeral_2_eq_2 a b square_phase_9 square_phase_10 getNextSamples.simps(1))
  qed
  finally show ?thesis by simp
qed

text \<open>
  At that phase the sum with \<open>0.5\<close> rounds to \<open>1\<close>, which \<open>fmod\<close> wraps to \<open>0\<close>: the
  second correction is computed at the phase \<open>0\<close> and is \<open>-1\<close>, while the first is \<open>0\<close>.
\<close>

lemma square_half_wraps: "fl64 (9007199254740991 / 18014398509481984 + 0.5) = 1"
  by (simp add: fl64_eval roundTo_eval[where k = "-1"])

lemma square_blep_far:
  "polyBlep (9007199254740991 / 18014398509481984) (3602879701896397 / 72057594037927936) = Inr 0"
  by (simp add: polyBlep_def fl64_eval roundTo_eval[where k = "-1"])

lemma square_blep_zero:
  "polyBlep 0 (3602879701896397 / 72057594037927936) = Inr (- 1)"
  by (simp add: polyBlep_def)

lemma square_sample:
  "waveformSample Square (9007199254740991 / 18014398509481984)
     (3602879701896397 / 72057594037927936) = Inr 2"
  using square_half_wraps
  by (simp add: waveformSample_def fmod_def square_blep_far square_blep_zero)

text \<open>
  C1, at the failing input: a square oscillator at the phase \<open>0\<close> after
  \<open>setFrequency (2205, 44100)\<close>, whose increment, the \<open>double\<close> nearest to \<open>1 / 20\<close>, is
  below \<open>1 / 4\<close>. Its first ten calls of \<open>getNextSample\<close> return and leave the phase
  at \<open>1 / 2 - 1 / 2 ^ 54\<close>. In the eleventh call the test \<open>currentPhase < 0.5\<close> holds and
  the sample starts at \<open>1\<close>, but \<open>currentPhase + 0.5\<close> rounds to \<open>1\<close> and the correction
  for the falling edge is taken at the phase \<open>0\<close>: the call returns the sample \<open>2\<close>,
  outside \<open>[-1, 1]\<close>.
\<close>

theorem square_sample_out_of_range:
  "phaseDelta (squareOscillator 0) = 3602879701896397 / 72057594037927936 \<and>
   phaseDelta (squareOscillator 0) \<le> 1 / 4 \<and>
   getNextSamples 10 (squareOscillator 0)
     = Inr (squareOscillator (9007199254740991 / 18014398509481984)) \<and>
   Oscillator_getNextSample (squareOscillator (9007199254740991 / 18014398509481984))
     = Inr (2, squareOscillator (4953959590107545 / 9007199254740992))"
proof -
  have d: "phaseDelta (squareOscillator 0) = 3602879701896397 / 72057594037927936"
    by (simp only: squareOscillator_value Oscillator.simps)
  have s: "Oscillator_getNextSample (squareOscillator (9007199254740991 / 18014398509481984))
     = Inr (2, squareOscillator (4953959590107545 / 9007199254740992))"
    by (simp add: Oscillator_getNextSample_def squareOscillator_value square_sample square_phase_11)
  have "(3602879701896397 / 72057594037927936 :: real) \<le> 1 / 4" by simp
  then have "phaseDelta (squareOscillator 0) \<le> 1 / 4" by (simp only: d)
  then show ?thesis using d s square_run by (intro conjI)
qed

text \<open>One phase update, for an increment below \<open>1\<close>.\<close>

lemma advancePhase_range:
  assumes "isDouble t" "0 \<le> t" "t < 1" and "isDouble dt" "0 \<le> dt" "dt < 1"
  shows "advancePhase t dt = (if 1 \<le> fl64 (t + dt) then fl64 (t + dt) - 1 else fl64 (t + dt))"
    and "0 \<le> advancePhase t dt" and "advancePhase t dt < 1" and "isDouble (advancePhase t dt)"
proof -
  define s where "s = fl64 (t + dt)"
  have "t \<le> 1 - 1 / 2 ^ 53" using assms(1,3) by (rule double_below_one)
  moreover have "dt \<le> 1 - 1 / 2 ^ 53" using assms(4,6) by (rule double_below_one)
  ultimately have "t + dt \<le> 2 - 1 / 2 ^ 52" by simp
  then have "roundTo 53 (- 1074) (t + dt) \<le> roundTo 53 (- 1074) (2 - 1 / 2 ^ 52)"
    using assms(2,5) by (intro roundTo_mono) simp_all
  then have hi: "s \<le> 2 - 1 / 2 ^ 52"
    using fl64_below_two by (simp add: s_def fl64_def)
  have lo: "0 \<le> s"
    unfolding s_def fl64_def using assms(2,5) by (intro roundTo_nonneg) simp
  have d: "isDouble s" by (simp add: s_def isDouble_fl64)
  have w: "fl64 (s - 1) = s - 1" if "1 \<le> s"
    using d that hi by (intro double_minus_one) simp_all
  have a: "advancePhase t dt = (if 1 \<le> s then s - 1 else s)"
    using w by (simp add: advancePhase_def s_def[symmetric] Let_def)
  show "advancePhase t dt = (if 1 \<le> fl64 (t + dt) then fl64 (t + dt) - 1 else fl64 (t + dt))"
    using a by (simp add: s_def)
  show "0 \<le> advancePhase t dt" using a lo by simp
  show "advancePhase t dt < 1" using a hi by simp
  show "isDouble (advancePhase t dt)"
    using a d w by (simp add: isDouble_def)
qed

text \<open>
  With the increment \<open>1\<close> the update leaves the range: from the largest phase below \<open>1\<close>
  the sum rounds to \<open>2\<close>, and the new phase is \<open>1\<close>.
\<close>

lemma advancePhase_boundary: "advancePhase (1 - 1 / 2 ^ 53) 1 = 1"
proof -
  have "fl64 (1 - 1 / 2 ^ 53 + 1) = 2"
    by (simp add: fl64_eval roundTo_eval[where k = 0])
  then show ?thesis by (simp add: advancePhase_def)
qed

text \<open>
  C2, as stated: after every call of \<open>getNextSample\<close> the phase lies in \<open>[0, 1)\<close>. The
  wrap subtracts \<open>1\<close> once, so an increment above \<open>1\<close> (a frequency above the sample rate)
  leaves a phase of \<open>1\<close> or more: with the increment \<open>3/2\<close> the phase after two calls
  from \<open>0\<close> is \<open>1\<close>. All the sums of this run are exact.
\<close>

theorem phase_leaves_range:
  "getNextSamples 2 \<lparr>currentWaveform = Sine, currentPhase = 0, phaseDelta = 3/2\<rparr>
     = Inr \<lparr>currentWaveform = Sine, currentPhase = 1, phaseDelta = 3/2\<rparr>"
proof -
  have a: "advancePhase 0 (3/2) = 1/2"
    by (simp add: advancePhase_def fl64_eval roundTo_eval[where k = 0] roundTo_eval[where k = "-1"])
  have b: "advancePhase (1/2) (3/2) = 1"
    by (simp add: advancePhase_def fl64_eval roundTo_eval[where k = 1] roundTo_eval[where k = 0])
  show ?thesis
    by (simp add: eval_nat_numeral Oscillator_getNextSample_def waveformSample_def a b)
qed

text \<open>
  C2, amended: for a phase increment in \<open>[0, 1)\<close> and a phase that starts in \<open>[0, 1)\<close>,
  both values of the type \<open>double\<close>, every sequence of calls of \<open>getNextSample\<close> returns
  and leaves the phase a \<open>double\<close> in \<open>[0, 1)\<close>. Each call rounds once, in the addition
  of the increment; the subtraction of \<open>1\<close> in the wrap is exact. The increment and the
  waveform are unchanged.
\<close>

theorem phase_stays_in_range:
  assumes "isDouble (currentPhase osc)" "0 \<le> currentPhase osc" "currentPhase osc < 1"
    and "isDouble (phaseDelta osc)" "0 \<le> phaseDelta osc" "phaseDelta osc < 1"
  shows "\<exists>osc'. getNextSamples n osc = Inr osc' \<and>
           0 \<le> currentPhase osc' \<and> currentPhase osc' < 1 \<and> isDouble (currentPhase osc') \<and>
           currentPhase osc' =
             ((\<lambda>p. if 1 \<le> fl64 (p + phaseDelta osc) then fl64 (p + phaseDelta osc) - 1
                    else fl64 (p + phaseDelta osc)) ^^ n) (currentPhase osc) \<and>
           phaseDelta osc' = phaseDelta osc \<and> currentWaveform osc' = currentWaveform osc"
  using assms
proof (induction n arbitrary: osc)
  case 0
  then show ?case by simp
next
  case (Suc n)
  define step where "step = (\<lambda>p. if 1 \<le> fl64 (p + phaseDelta osc)
      then fl64 (p + phaseDelta osc) - 1 else fl64 (p + phaseDelta osc))"
  define osc1 where "osc1 = osc\<lparr>currentPhase :=
      advancePhase (currentPhase osc) (phaseDelta osc)\<rparr>"
  obtain s where "waveformSample (currentWaveform osc) (currentPhase osc) (phaseDelta osc) = Inr s"
    using waveformSample_defined[OF Suc.prems(2,3)] by blast
  then have run: "getNextSamples (Suc n) osc = getNextSamples n osc1"
    by (simp add: Oscillator_getNextSample_def osc1_def)
  note adv = advancePhase_range[OF Suc.prems]
  have p1: "currentPhase osc1 = step (currentPhase osc)"
    using adv(1) by (simp add: osc1_def step_def)
  have d1: "phaseDelta osc1 = phaseDelta osc" "currentWaveform osc1 = currentWaveform osc"
    by (simp_all add: osc1_def)
  have "\<exists>osc'. getNextSamples n osc1 = Inr osc' \<and>
           0 \<le> currentPhase osc' \<and> currentPhase osc' < 1 \<and> isDouble (currentPhase osc') \<and>
           currentPhase osc' =
             ((\<lambda>p. if 1 \<le> fl64 (p + phaseDelta osc1) then fl64 (p + phaseDelta osc1) - 1
                    else fl64 (p + phaseDelta osc1)) ^^ n) (currentPhase osc1) \<and>
           phaseDelta osc' = phaseDelta osc1 \<and> currentWaveform osc' = currentWaveform osc1"
    using adv(2,3,4) Suc.prems(4,5,6) by (intro Suc.IH) (simp_all add: osc1_def)
  then obtain osc' where o: "getNextSamples n osc1 = Inr osc'"
      "0 \<le> currentPhase osc'" "currentPhase osc' < 1" "isDouble (currentPhase osc')"
      "currentPhase osc' = (step ^^ n) (currentPhase osc1)"
      "phaseDelta osc' = phaseDelta osc" "currentWaveform osc' = currentWaveform osc"
    unfolding d1 step_def by blast
  have ph: "currentPhase osc' = (step ^^ Suc n) (currentPhase osc)"
    using o(5) p1 by (simp add: funpow_swap1)
  have "getNextSamples (Suc n) osc = Inr osc'" using run o(1) by simp
  then show ?case using o(2,3,4,6,7) ph unfolding step_def
    by (intro exI[of _ osc'] conjI)
qed

theorem phase_stays_in_range_witness:
  "isDouble 0 \<and> (0::real) \<le> 0 \<and> (0::real) < 1 \<and>
   isDouble (1/4) \<and> (0::real) \<le> 1/4 \<and> (1/4::real) < 1 \<and>
   (\<exists>osc'. getNextSamples 5 \<lparr>currentWaveform = Saw, currentPhase = 0, phaseDelta = 1/4\<rparr> = Inr osc' \<and>
      currentPhase osc' = 1/4)"
proof -
  have q: "fl64 (1/4) = 1/4" "fl64 (1/2) = 1/2" "fl64 (3/4) = 3/4"
    by (simp_all add: fl64_eval roundTo_eval[where k = "-2"] roundTo_eval[where k = "-1"])
  have d: "isDouble 0" "isDouble (1/4)" by (simp_all add: isDouble_def q)
  show ?thesis
    using phase_stays_in_range[of "\<lparr>currentWaveform = Saw, currentPhase = 0, phaseDelta = 1/4\<rparr>" 5] d
    by (auto simp: eval_nat_numeral q)
qed




section \<open>The noise generator\<close>

text \<open>The literal \<open>0.0003f\<close>, and the bounds of the rounded factors.\<close>

lemma fl32_base: "fl32 (3 / 10000) = 5153961 / 17179869184"
  by (simp add: fl32_eval roundTo_eval[where k = "-12"])

lemma fl32_base_exact: "fl32 (5153961 / 17179869184) = 5153961 / 17179869184"
  by (simp add: fl32_eval roundTo_eval[where k = "-12"])

text \<open>The rounded products, for a level in \<open>[0, 1]\<close> and a factor \<open>\<bar>b\<bar> \<le> 1\<close>.\<close>

lemma noise_products_bound:
  assumes b: "\<bar>b\<bar> \<le> 1" and l: "0 \<le> lvl" "lvl \<le> 1"
  shows "\<bar>fl32 (fl32 (fl32 (b * fl32 (3 / 10000)) * lvl) * 100)\<bar> \<le> 3 / 100 * lvl + 1 / 2 ^ 27"
proof -
  define c1 :: real where "c1 = 5153961 / 17179869184"
  define c where "c = fl32 (b * c1)"
  define d where "d = fl32 (c * lvl)"
  have "\<bar>b * c1\<bar> \<le> c1" using b by (simp add: abs_mult c1_def)
  then have "\<bar>c\<bar> \<le> fl32 c1" unfolding c_def by (rule fl32_abs_le)
  moreover have "fl32 c1 = c1" unfolding c1_def by (rule fl32_base_exact)
  ultimately have c: "\<bar>c\<bar> \<le> c1" by simp
  have "\<bar>c * lvl\<bar> \<le> c1 * lvl"
    using c l by (simp add: abs_mult mult_right_mono)
  then have "\<bar>d\<bar> \<le> fl32 (c1 * lvl)" unfolding d_def by (rule fl32_abs_le)
  moreover have "\<bar>c1 * lvl\<bar> < pow2 (- 12 + 1)"
  proof -
    have "c1 * lvl \<le> c1 * 1" using l by (intro mult_left_mono) (simp_all add: c1_def)
    then show ?thesis using l by (simp add: c1_def pow2_def abs_mult)
  qed
  then have "\<bar>fl32 (c1 * lvl) - c1 * lvl\<bar> \<le> pow2 (max (- 12 - int 24 + 1) (- 149)) / 2"
    unfolding fl32_def by (rule roundTo_error)
  then have "fl32 (c1 * lvl) - c1 * lvl \<le> pow2 (max (- 12 - int 24 + 1) (- 149)) / 2"
    by linarith
  then have "fl32 (c1 * lvl) \<le> c1 * lvl + 1 / 2 ^ 36" by (simp add: pow2_def)
  ultimately have d: "\<bar>d\<bar> \<le> c1 * lvl + 1 / 2 ^ 36" by linarith
  define B where "B = (c1 * lvl + 1 / 2 ^ 36) * 100"
  have "\<bar>d * 100\<bar> \<le> B" using d by (simp add: B_def abs_mult)
  then have r: "\<bar>fl32 (d * 100)\<bar> \<le> fl32 B" by (rule fl32_abs_le)
  have "c1 * lvl \<le> c1 * 1" using l by (intro mult_left_mono) (simp_all add: c1_def)
  then have Bhi: "B \<le> (c1 + 1 / 2 ^ 36) * 100" by (simp add: B_def)
  have "0 \<le> B" using l by (simp add: B_def c1_def)
  then have "\<bar>B\<bar> < pow2 (- 6 + 1)" using Bhi by (simp add: c1_def pow2_def)
  then have "\<bar>fl32 B - B\<bar> \<le> pow2 (max (- 6 - int 24 + 1) (- 149)) / 2"
    unfolding fl32_def by (rule roundTo_error)
  then have "fl32 B - B \<le> pow2 (max (- 6 - int 24 + 1) (- 149)) / 2" by linarith
  then have "fl32 B \<le> B + 1 / 2 ^ 30" by (simp add: pow2_def)
  then have "\<bar>fl32 (d * 100)\<bar> \<le> (c1 * lvl + 1 / 2 ^ 36) * 100 + 1 / 2 ^ 30"
    using r by (simp add: B_def)
  also have "\<dots> \<le> 3 / 100 * lvl + 1 / 2 ^ 27"
  proof -
    have "(c1 * 100 - 3 / 100) * lvl \<le> (c1 * 100 - 3 / 100) * 1"
      using l by (intro mult_left_mono) (simp_all add: c1_def)
    then show ?thesis by (simp add: c1_def algebra_simps)
  qed
  finally show ?thesis by (simp add: d_def c_def c1_def fl32_base)
qed

lemma noise_factor_bound:
  assumes "0 \<le> r" "r < 1"
  shows "\<bar>fl32 (fl32 (r * 2) - 1)\<bar> \<le> 1"
proof -
  have "\<bar>fl32 (r * 2)\<bar> \<le> fl32 2" using assms by (intro fl32_abs_le) simp
  moreover have "0 \<le> fl32 (r * 2)"
    unfolding fl32_def using assms by (intro roundTo_nonneg) simp
  ultimately have "\<bar>fl32 (r * 2) - 1\<bar> \<le> 1" by simp
  then have "\<bar>fl32 (fl32 (r * 2) - 1)\<bar> \<le> fl32 1" by (rule fl32_abs_le)
  then show ?thesis by simp
qed

text \<open>
  C9, as stated: the absolute value of the result is at most \<open>0.03 * level\<close>. The
  literal \<open>0.0003f\<close> is above \<open>0.0003\<close> and the product with \<open>100.0f\<close> is rounded up:
  with the level \<open>1\<close> and the draw \<open>0\<close> the result is \<open>-1006633 / 33554432\<close>, below
  \<open>-0.03\<close>.
\<close>

theorem noise_exceeds_bound:
  "fst (addAnalogNoise True 1 (\<lambda>n. 0)) = - (1006633 / 33554432) \<and>
   \<not> \<bar>fst (addAnalogNoise True 1 (\<lambda>n. 0))\<bar> \<le> 0.03 * 1"
proof -
  have a: "fl32 (- (5153961 / 17179869184)) = - (5153961 / 17179869184)"
    by (simp only: fl32_minus fl32_base_exact)
  have b: "fl32 (- (5153961 / 17179869184) * 100) = - (1006633 / 33554432)"
    by (simp add: fl32_eval roundTo_eval[where k = "-6"])
  have "fst (addAnalogNoise True 1 (\<lambda>n. 0)) = - (1006633 / 33554432)"
    using a b by (simp add: addAnalogNoise_def nextFloat_def fl32_base)
  then show ?thesis by simp
qed

text \<open>
  C9, amended. \<open>addAnalogNoise\<close> returns exactly \<open>0\<close> when it is disabled (and draws no
  random number). When it is enabled with a level in \<open>[0, 1]\<close>, and the generator yields a
  value in \<open>[0, 1)\<close>, the absolute value of the result is at most
  \<open>0.03 * level + 1 / 2 ^ 27\<close>: the bound of the claim with the rounding of the literal
  and of the products added.
\<close>

theorem addAnalogNoise_rounded_bound:
  "addAnalogNoise False lvl rnd = (0, rnd) \<and>
   (0 \<le> rnd 0 \<and> rnd 0 < 1 \<and> 0 \<le> lvl \<and> lvl \<le> 1 \<longrightarrow>
      \<bar>fst (addAnalogNoise True lvl rnd)\<bar> \<le> 0.03 * lvl + 1 / 2 ^ 27)"
proof -
  have "\<bar>fst (addAnalogNoise True lvl rnd)\<bar> \<le> 0.03 * lvl + 1 / 2 ^ 27"
    if a: "0 \<le> rnd 0 \<and> rnd 0 < 1 \<and> 0 \<le> lvl \<and> lvl \<le> 1"
  proof -
    have "\<bar>fl32 (fl32 (rnd 0 * 2) - 1)\<bar> \<le> 1"
      using a by (intro noise_factor_bound) simp_all
    then have "\<bar>fl32 (fl32 (fl32 (fl32 (fl32 (rnd 0 * 2) - 1) * fl32 (3 / 10000)) * lvl) * 100)\<bar>
        \<le> 3 / 100 * lvl + 1 / 2 ^ 27"
      using a by (intro noise_products_bound) simp_all
    then show ?thesis by (simp add: addAnalogNoise_def nextFloat_def)
  qed
  moreover have "addAnalogNoise False lvl rnd = (0, rnd)" by (simp add: addAnalogNoise_def)
  ultimately show ?thesis by blast
qed

theorem addAnalogNoise_rounded_bound_witness:
  "addAnalogNoise False 1 (\<lambda>n. 0) = (0, \<lambda>n. 0) \<and>
   (0::real) \<le> 0 \<and> (0::real) < 1 \<and> (0::real) \<le> 1 \<and> (1::real) \<le> 1 \<and>
   \<bar>fst (addAnalogNoise True 1 (\<lambda>n. 0))\<bar> \<le> 0.03 * 1 + 1 / 2 ^ 27"
  using addAnalogNoise_rounded_bound[of 1 "\<lambda>n. 0"]
  by simp

section \<open>The unison bank\<close>

lemma setFrequencyLoop_result:
  assumes "sr \<noteq> 0" "i + k \<le> length oscs"
  shows "\<exists>oscs'. setFrequencyLoop f sr n d k i oscs = Inr oscs' \<and> length oscs' = length oscs \<and>
           (\<forall>j. i \<le> j \<and> j < i + k \<longrightarrow>
              oscs' ! j = (oscs ! j)\<lparr>phaseDelta := f * voiceDetune n d (int j) / sr\<rparr>) \<and>
           (\<forall>j. j < i \<or> i + k \<le> j \<longrightarrow> oscs' ! j = oscs ! j)"
  using assms
proof (induction k arbitrary: i oscs)
  case 0
  then show ?case by simp
next
  case (Suc k)
  define o1 where "o1 = (oscs ! i)\<lparr>phaseDelta := f * voiceDetune n d (int i) / sr\<rparr>"
  define oscs1 where "oscs1 = oscs[i := o1]"
  have i: "i < length oscs" using Suc.prems by simp
  have "Oscillator_setFrequency (f * voiceDetune n d (int i)) sr (oscs ! i) = Inr o1"
    using Suc.prems(1) by (simp add: Oscillator_setFrequency_def o1_def)
  then have step: "setFrequencyLoop f sr n d (Suc k) i oscs = setFrequencyLoop f sr n d k (Suc i) oscs1"
    using i by (simp add: oscs1_def)
  have len: "Suc i + k \<le> length oscs1" using Suc.prems by (simp add: oscs1_def)
  obtain oscs' where r1: "setFrequencyLoop f sr n d k (Suc i) oscs1 = Inr oscs'"
    and r2: "length oscs' = length oscs1"
    and r3: "\<And>j. Suc i \<le> j \<and> j < Suc i + k \<Longrightarrow>
              oscs' ! j = (oscs1 ! j)\<lparr>phaseDelta := f * voiceDetune n d (int j) / sr\<rparr>"
    and r4: "\<And>j. j < Suc i \<or> Suc i + k \<le> j \<Longrightarrow> oscs' ! j = oscs1 ! j"
    using Suc.IH[OF Suc.prems(1) len] by blast
  have a: "oscs' ! j = (oscs ! j)\<lparr>phaseDelta := f * voiceDetune n d (int j) / sr\<rparr>"
    if j: "i \<le> j \<and> j < i + Suc k" for j
  proof (cases "j = i")
    case True
    have "oscs' ! i = oscs1 ! i" by (rule r4) simp
    also have "\<dots> = o1" using i by (simp add: oscs1_def)
    finally show ?thesis using True by (simp add: o1_def)
  next
    case False
    then have "Suc i \<le> j \<and> j < Suc i + k" using j by simp
    then have "oscs' ! j = (oscs1 ! j)\<lparr>phaseDelta := f * voiceDetune n d (int j) / sr\<rparr>"
      by (rule r3)
    moreover have "oscs1 ! j = oscs ! j" using False by (simp add: oscs1_def)
    ultimately show ?thesis by simp
  qed
  have b: "oscs' ! j = oscs ! j" if j: "j < i \<or> i + Suc k \<le> j" for j
  proof -
    have "j < Suc i \<or> Suc i + k \<le> j" using j by linarith
    then have "oscs' ! j = oscs1 ! j" by (rule r4)
    moreover have "j \<noteq> i" using j by linarith
    ultimately show ?thesis by (simp add: oscs1_def)
  qed
  have l: "length oscs' = length oscs" using r2 by (simp add: oscs1_def)
  have e: "setFrequencyLoop f sr n d (Suc k) i oscs = Inr oscs'" using step r1 by (simp only:)
  show ?case using e l a b by blast
qed

lemma Unison_setFrequency_result:
  assumes "sampleRate \<noteq> 0" "numVoices u \<le> int (length (oscillators u))"
  shows "\<exists>u'. Unison_setFrequency frequency sampleRate u = Inr u' \<and>
           numVoices u' = numVoices u \<and> detuneAmount u' = detuneAmount u \<and>
           stereoWidth u' = stereoWidth u \<and>
           (\<forall>i. 0 \<le> i \<and> i < numVoices u \<longrightarrow>
              phaseDelta (oscillators u' ! nat i) =
                frequency * voiceDetune (numVoices u) (detuneAmount u) i / sampleRate)"
proof -
  have len: "0 + nat (numVoices u) \<le> length (oscillators u)" using assms(2) by simp
  obtain oscs' where r1: "setFrequencyLoop frequency sampleRate (numVoices u) (detuneAmount u)
        (nat (numVoices u)) 0 (oscillators u) = Inr oscs'"
    and r2: "\<And>j. 0 \<le> j \<and> j < 0 + nat (numVoices u) \<Longrightarrow>
              oscs' ! j = (oscillators u ! j)\<lparr>phaseDelta :=
                 frequency * voiceDetune (numVoices u) (detuneAmount u) (int j) / sampleRate\<rparr>"
    using setFrequencyLoop_result[OF assms(1) len,
        where f = frequency and n = "numVoices u" and d = "detuneAmount u"] by blast
  define u' where "u' = u\<lparr>oscillators := oscs'\<rparr>"
  have e: "Unison_setFrequency frequency sampleRate u = Inr u'"
    using r1 by (simp add: Unison_setFrequency_def u'_def)
  have p: "phaseDelta (oscillators u' ! nat i) =
             frequency * voiceDetune (numVoices u) (detuneAmount u) i / sampleRate"
    if i: "0 \<le> i \<and> i < numVoices u" for i
  proof -
    have "0 \<le> nat i \<and> nat i < 0 + nat (numVoices u)" using i by linarith
    then have "oscs' ! nat i = (oscillators u ! nat i)\<lparr>phaseDelta :=
                 frequency * voiceDetune (numVoices u) (detuneAmount u) (int (nat i)) / sampleRate\<rparr>"
      by (rule r2)
    moreover have "int (nat i) = i" using i by simp
    ultimately show ?thesis by (simp add: u'_def)
  qed
  have f: "numVoices u' = numVoices u" "detuneAmount u' = detuneAmount u"
    "stereoWidth u' = stereoWidth u" by (simp_all add: u'_def)
  show ?thesis using e f p by blast
qed

lemma setFrequency_detuned:
  assumes "sampleRate \<noteq> 0" "1 < numVoices u" "numVoices u \<le> int (length (oscillators u))"
    and "0 \<le> i" "i < numVoices u"
  shows "\<exists>u'. Unison_setFrequency frequency sampleRate u = Inr u' \<and>
           phaseDelta (oscillators u' ! nat i) =
             frequency * 2 powr ((of_int (i - numVoices u div 2) * detuneAmount u * 15) / 1200)
               / sampleRate"
proof -
  obtain u' where r: "Unison_setFrequency frequency sampleRate u = Inr u'"
    "\<forall>i. 0 \<le> i \<and> i < numVoices u \<longrightarrow>
              phaseDelta (oscillators u' ! nat i) =
                frequency * voiceDetune (numVoices u) (detuneAmount u) i / sampleRate"
    using Unison_setFrequency_result[OF assms(1,3), of frequency] by blast
  have "phaseDelta (oscillators u' ! nat i) =
          frequency * voiceDetune (numVoices u) (detuneAmount u) i / sampleRate"
    using r(2) assms(4,5) by blast
  moreover have "voiceDetune (numVoices u) (detuneAmount u) i =
      2 powr ((of_int (i - numVoices u div 2) * detuneAmount u * 15) / 1200)"
    using assms(2) by (simp only: voiceDetune_def Let_def if_True)
  ultimately show ?thesis using r(1) by simp
qed

lemma setFrequency_zero_detune:
  assumes "sampleRate \<noteq> 0" "1 < numVoices u" "numVoices u \<le> int (length (oscillators u))"
    and "0 \<le> i" "i < numVoices u" "detuneAmount u = 0"
  shows "\<exists>u'. Unison_setFrequency frequency sampleRate u = Inr u' \<and>
           phaseDelta (oscillators u' ! nat i) = frequency / sampleRate"
  using setFrequency_detuned[OF assms(1-5), of frequency] assms(6) by simp

text \<open>
  C3, at the failing input. With one voice the loop of \<open>setFrequency\<close> leaves
  \<open>voiceDetune\<close> at its initial value \<open>0.0f\<close> and multiplies the frequency by it: the only
  oscillator is set to the frequency \<open>0\<close> (phase increment \<open>0\<close>), whatever the base
  frequency, and not to the base frequency as a detune of \<open>0\<close> cents requires. For two to
  seven voices the rule of the claim holds (\<open>setFrequency_detuned\<close>,
  \<open>setFrequency_zero_detune\<close>).
\<close>

theorem single_voice_frequency_zero:
  assumes "sampleRate \<noteq> 0" "numVoices u = 1" "oscillators u \<noteq> []"
  shows "\<exists>u'. Unison_setFrequency frequency sampleRate u = Inr u' \<and>
           phaseDelta (oscillators u' ! 0) = 0"
proof -
  have "numVoices u \<le> int (length (oscillators u))"
    using assms(2,3) by (cases "oscillators u") simp_all
  then obtain u' where r: "Unison_setFrequency frequency sampleRate u = Inr u'"
    "\<forall>i. 0 \<le> i \<and> i < numVoices u \<longrightarrow>
              phaseDelta (oscillators u' ! nat i) =
                frequency * voiceDetune (numVoices u) (detuneAmount u) i / sampleRate"
    using Unison_setFrequency_result[OF assms(1), of u frequency] by blast
  have "phaseDelta (oscillators u' ! nat 0) =
          frequency * voiceDetune (numVoices u) (detuneAmount u) 0 / sampleRate"
    using r(2) assms(2) by simp
  moreover have "voiceDetune (numVoices u) (detuneAmount u) 0 = 0"
    using assms(2) by (simp add: voiceDetune_def)
  ultimately show ?thesis using r(1) by simp
qed

theorem single_voice_frequency_zero_witness:
  "(44100::real) \<noteq> 0 \<and> numVoices UnisonOscillator_init = 1 \<and>
   oscillators UnisonOscillator_init \<noteq> [] \<and>
   (\<exists>u'. Unison_setFrequency 440 44100 UnisonOscillator_init = Inr u' \<and>
           phaseDelta (oscillators u' ! 0) = 0)"
proof -
  have a: "(44100::real) \<noteq> 0" by simp
  have b: "numVoices UnisonOscillator_init = 1" by (simp add: UnisonOscillator_init_def)
  have c: "oscillators UnisonOscillator_init \<noteq> []"
    by (simp add: UnisonOscillator_init_def maxVoices_def)
  show ?thesis using a b c single_voice_frequency_zero[OF a b c, of 440] by blast
qed


lemma panGains_centre: "panGains (voicePan n 0 i) = (sqrt 2 / 2, sqrt 2 / 2)"
  by (simp add: panGains_def voicePan_def cos_45 sin_45)

lemma stereoLoop_mono:
  assumes "stereoLoop n 0 k i (a, a) oscs = Inr ((l, r), oscs')"
  shows "l = r"
  using assms
proof (induction k arbitrary: i a oscs)
  case 0
  then show ?case by simp
next
  case (Suc k)
  from Suc.prems obtain sample osc' where
    "stereoLoop n 0 k (Suc i) (a + sample * (sqrt 2 / 2), a + sample * (sqrt 2 / 2)) (oscs[i := osc'])
       = Inr ((l, r), oscs')"
    by (auto simp: panGains_centre split: if_splits sum.splits)
  then show ?case by (rule Suc.IH)
qed

lemma stereoLoop_defined:
  assumes "i + k \<le> length oscs"
    and "\<And>j. i \<le> j \<and> j < i + k \<Longrightarrow> 0 \<le> currentPhase (oscs ! j) \<and> currentPhase (oscs ! j) < 1"
  shows "\<exists>res. stereoLoop n w k i acc oscs = Inr res"
  using assms
proof (induction k arbitrary: i acc oscs)
  case 0
  then show ?case by simp
next
  case (Suc k)
  have i: "i < length oscs" using Suc.prems(1) by simp
  have "0 \<le> currentPhase (oscs ! i) \<and> currentPhase (oscs ! i) < 1"
    by (rule Suc.prems(2)) simp
  then obtain s where s: "waveformSample (currentWaveform (oscs ! i)) (currentPhase (oscs ! i))
      (phaseDelta (oscs ! i)) = Inr s"
    using waveformSample_defined[of "currentPhase (oscs ! i)" "currentWaveform (oscs ! i)"
        "phaseDelta (oscs ! i)"] by blast
  define o1 where "o1 = (oscs ! i)\<lparr>currentPhase :=
      advancePhase (currentPhase (oscs ! i)) (phaseDelta (oscs ! i))\<rparr>"
  have g: "Oscillator_getNextSample (oscs ! i) = Inr (s, o1)"
    using s by (simp add: Oscillator_getNextSample_def o1_def)
  define acc1 where "acc1 = (fst acc + s * fst (panGains (voicePan n w i)),
                             snd acc + s * snd (panGains (voicePan n w i)))"
  have step: "stereoLoop n w (Suc k) i acc oscs = stereoLoop n w k (Suc i) acc1 (oscs[i := o1])"
    using i g by (simp add: acc1_def Let_def split: prod.splits)
  have len: "Suc i + k \<le> length (oscs[i := o1])" using Suc.prems(1) by simp
  have ph: "0 \<le> currentPhase (oscs[i := o1] ! j) \<and> currentPhase (oscs[i := o1] ! j) < 1"
    if j: "Suc i \<le> j \<and> j < Suc i + k" for j
  proof -
    have "i \<le> j \<and> j < i + Suc k" using j by linarith
    then have "0 \<le> currentPhase (oscs ! j) \<and> currentPhase (oscs ! j) < 1"
      by (rule Suc.prems(2))
    moreover have "j \<noteq> i" using j by linarith
    ultimately show ?thesis by simp
  qed
  show ?case using Suc.IH[OF len ph, of acc1] step by simp
qed

lemma getNextSampleStereo_defined:
  assumes "1 \<le> numVoices u" "numVoices u \<le> int (length (oscillators u))"
    and "\<And>osc. osc \<in> set (oscillators u) \<Longrightarrow> 0 \<le> currentPhase osc \<and> currentPhase osc < 1"
  shows "\<exists>res. getNextSampleStereo u = Inr res"
proof -
  have len: "0 + nat (numVoices u) \<le> length (oscillators u)" using assms(2) by simp
  have ph: "0 \<le> currentPhase (oscillators u ! j) \<and> currentPhase (oscillators u ! j) < 1"
    if j: "0 \<le> j \<and> j < 0 + nat (numVoices u)" for j
  proof -
    have "j < length (oscillators u)" using j len by linarith
    then have "oscillators u ! j \<in> set (oscillators u)" by (rule nth_mem)
    then show ?thesis by (rule assms(3))
  qed
  obtain res where "stereoLoop (numVoices u) (stereoWidth u) (nat (numVoices u)) 0 (0, 0)
      (oscillators u) = Inr res"
    using stereoLoop_defined[OF len ph, where n = "numVoices u" and w = "stereoWidth u"
        and acc = "(0, 0)"] by blast
  then show ?thesis using assms(1)
    by (cases res) (auto simp: getNextSampleStereo_def Let_def split: prod.splits)
qed

lemma stereo_mono:
  assumes "stereoWidth u = 0" "getNextSampleStereo u = Inr ((left, right), u')"
  shows "left = right"
proof -
  from assms obtain l r oscs where
    "stereoLoop (numVoices u) 0 (nat (numVoices u)) 0 (0, 0) (oscillators u) = Inr ((l, r), oscs)"
    and "left = l * (1 / sqrt (of_int (numVoices u)))"
    and "right = r * (1 / sqrt (of_int (numVoices u)))"
    by (auto simp: getNextSampleStereo_def Let_def split: sum.splits if_splits)
  then show ?thesis using stereoLoop_mono by blast
qed

text \<open>
  C4. With a stereo width of \<open>0\<close> the two components of the pair that
  \<open>getNextSampleStereo\<close> returns are equal, for every number of voices and every state
  of the oscillators: each voice is panned to \<open>0\<close>, its two gains are
  \<open>cos (pi / 4) = sin (pi / 4)\<close>, and both sums get the same normalisation factor. The
  call returns such a pair whenever the voice count is between \<open>1\<close> and the number of
  oscillators and the phases lie in \<open>[0, 1)\<close>.
\<close>

theorem stereo_width_zero_mono:
  assumes "stereoWidth u = 0"
  shows "(\<forall>left right u'. getNextSampleStereo u = Inr ((left, right), u') \<longrightarrow> left = right) \<and>
         (1 \<le> numVoices u \<and> numVoices u \<le> int (length (oscillators u)) \<and>
          (\<forall>osc \<in> set (oscillators u). 0 \<le> currentPhase osc \<and> currentPhase osc < 1) \<longrightarrow>
            (\<exists>m u'. getNextSampleStereo u = Inr ((m, m), u')))"
proof -
  have eq: "left = right" if "getNextSampleStereo u = Inr ((left, right), u')" for left right u'
    using assms that by (rule stereo_mono)
  have "\<exists>m u'. getNextSampleStereo u = Inr ((m, m), u')"
    if inv: "1 \<le> numVoices u \<and> numVoices u \<le> int (length (oscillators u)) \<and>
          (\<forall>osc \<in> set (oscillators u). 0 \<le> currentPhase osc \<and> currentPhase osc < 1)"
  proof -
    have "\<exists>res. getNextSampleStereo u = Inr res"
      using inv by (intro getNextSampleStereo_defined) auto
    then obtain l r u' where e: "getNextSampleStereo u = Inr ((l, r), u')" by auto
    then have "l = r" by (rule eq)
    then show ?thesis using e by blast
  qed
  then show ?thesis using eq by blast
qed

theorem stereo_width_zero_mono_witness:
  "stereoWidth exampleUnison = 0 \<and>
   (\<exists>m u'. getNextSampleStereo exampleUnison = Inr ((m, m), u') \<and> m \<noteq> 0)"
proof -
  have h: "stereoWidth exampleUnison = 0"
    by (simp add: exampleUnison_def setStereoWidth_def jlimit_def)
  have e: "getNextSampleStereo exampleUnison =
      Inr ((- (3 * sqrt 2 / (2 * sqrt 3)), - (3 * sqrt 2 / (2 * sqrt 3))), exampleUnison)"
    by (simp add: exampleUnison_def getNextSampleStereo_def setStereoWidth_def setNumVoices_def
      Unison_setWaveform_def UnisonOscillator_init_def jlimit_def maxVoices_def
      Oscillator_init_def Oscillator_setWaveform_def eval_nat_numeral
      Oscillator_getNextSample_def waveformSample_def advancePhase_def
      panGains_def voicePan_def cos_45 sin_45)
  have n: "- (3 * sqrt 2 / (2 * sqrt 3)) \<noteq> (0::real)" by simp
  have "- (3 * sqrt 2 / (2 * sqrt 3)) = - (3 * sqrt 2 / (2 * sqrt 3))"
    using stereo_width_zero_mono[OF h] e by blast
  then show ?thesis using h e n by blast
qed

section \<open>The control values\<close>

lemma jlimit_range: "lo \<le> hi \<Longrightarrow> lo \<le> jlimit lo hi x \<and> jlimit lo hi x \<le> hi"
  by (auto simp: jlimit_def)

lemma jlimit_id: "lo \<le> x \<Longrightarrow> x \<le> hi \<Longrightarrow> jlimit lo hi x = x"
  by (auto simp: jlimit_def)

text \<open>
  C5, as stated: after a setter call the stored cutoff and resonance lie in
  \<open>[20, 20000]\<close> and \<open>[0.1, 10]\<close>. \<open>updateFilter\<close> stores its arguments as they are:
  a cutoff of \<open>50000\<close> and a resonance of \<open>100\<close> are kept.
\<close>

theorem updateFilter_unclamped:
  "\<not> (baseCutoff (updateFilter holdLibrary 50000 100 0 (SynthVoice_init ())) \<le> 20000) \<and>
   \<not> (filterResonance (updateFilter holdLibrary 50000 100 0 (SynthVoice_init ())) \<le> 10)"
  by (simp add: updateFilter_def)

text \<open>
  C5, amended: the setters of the unison bank clamp the voice count to \<open>[1, 7]\<close> and the
  detune and the stereo width to \<open>[0, 1]\<close>. \<open>updateFilter\<close> stores the cutoff and the
  resonance exactly as supplied and hands the resonance to the filter unchanged; the
  cutoff that the render loop gives the filter for each sample is clamped to
  \<open>[20, 20000]\<close>.
\<close>

theorem controls_clamped:
  "1 \<le> numVoices (setNumVoices num u) \<and> numVoices (setNumVoices num u) \<le> 7 \<and>
   0 \<le> detuneAmount (setDetuneAmount amount u) \<and> detuneAmount (setDetuneAmount amount u) \<le> 1 \<and>
   0 \<le> stereoWidth (setStereoWidth width u) \<and> stereoWidth (setStereoWidth width u) \<le> 1 \<and>
   baseCutoff (updateFilter L cutoff resonance envAmount v) = cutoff \<and>
   filterResonance (updateFilter L cutoff resonance envAmount v) = resonance \<and>
   filter' (updateFilter L cutoff resonance envAmount v) = setResonance L resonance (filter' v) \<and>
   20 \<le> modulatedCutoff cutoff envAmount filterEnvValue \<and>
   modulatedCutoff cutoff envAmount filterEnvValue \<le> 20000"
  by (simp add: setNumVoices_def setDetuneAmount_def setStereoWidth_def maxVoices_def
      updateFilter_def modulatedCutoff_def Let_def jlimit_range)

theorem controls_clamped_witness:
  "1 \<le> numVoices (setNumVoices 12 UnisonOscillator_init) \<and>
   numVoices (setNumVoices 12 UnisonOscillator_init) \<le> 7 \<and>
   0 \<le> detuneAmount (setDetuneAmount (-3) UnisonOscillator_init) \<and>
   detuneAmount (setDetuneAmount (-3) UnisonOscillator_init) \<le> 1 \<and>
   0 \<le> stereoWidth (setStereoWidth 2 UnisonOscillator_init) \<and>
   stereoWidth (setStereoWidth 2 UnisonOscillator_init) \<le> 1 \<and>
   baseCutoff (updateFilter holdLibrary 5 (1/20) 100 (SynthVoice_init ())) = 5 \<and>
   filterResonance (updateFilter holdLibrary 5 (1/20) 100 (SynthVoice_init ())) = 1/20 \<and>
   filter' (updateFilter holdLibrary 5 (1/20) 100 (SynthVoice_init ()))
     = setResonance holdLibrary (1/20) (filter' (SynthVoice_init ())) \<and>
   20 \<le> modulatedCutoff 5 100 0 \<and> modulatedCutoff 5 100 0 \<le> 20000"
  using controls_clamped[of 12 UnisonOscillator_init "-3" 2 holdLibrary 5 "1/20" 100
      "SynthVoice_init ()" 0]
  by simp

section \<open>The voice\<close>

lemma stopNote_frees_voice:
  assumes "\<not> allowTailOff \<or> \<not> isActive (adsr v)"
  shows "stopNote velocity allowTailOff v =
           v\<lparr>adsr := noteOff (adsr v), filterAdsr := noteOff (filterAdsr v), voiceState := Free\<rparr>"
  using assms by (auto simp: stopNote_def clearCurrentNote_def Let_def isActive_def noteOff_def)

lemma stopNote_tail:
  assumes "allowTailOff" "isActive (adsr v)"
  shows "stopNote velocity allowTailOff v =
           v\<lparr>adsr := noteOff (adsr v), filterAdsr := noteOff (filterAdsr v)\<rparr>"
  using assms by (auto simp: stopNote_def clearCurrentNote_def Let_def isActive_def noteOff_def)

lemma startNote_envelopes:
  assumes "startNote midiNoteNumber velocity v = Inr v1"
  shows "adsr v1 = noteOn (adsr v) \<and> filterAdsr v1 = noteOn (filterAdsr v) \<and>
         level v1 = velocity * 0.15 \<and> voiceState v1 = voiceState v"
  using assms by (auto simp: startNote_def Let_def split: sum.splits)

lemma startNote_defined:
  assumes "playbackSampleRate v \<noteq> 0"
    and "numVoices (oscillator v) \<le> int (length (oscillators (oscillator v)))"
  shows "\<exists>v1. startNote midiNoteNumber velocity v = Inr v1"
proof -
  obtain u' where "Unison_setFrequency (getMidiNoteInHertz midiNoteNumber) (playbackSampleRate v)
      (oscillator v) = Inr u'"
    using Unison_setFrequency_result[OF assms, where frequency = "getMidiNoteInHertz midiNoteNumber"]
    by blast
  then show ?thesis by (simp add: startNote_def Let_def getSampleRate_def)
qed

text \<open>
  A block of one sample into a stereo buffer, for an active envelope: the two values of
  the iteration are added to the two channels.
\<close>

lemma render_one_sample:
  assumes "isActive (adsr v)" "voiceSample L v rnd = Inr ((l, r), v', rnd')"
  shows "renderNextBlock L [[x], [y]] 0 1 v rnd =
           Inr ([[x + l], [y + r]], if \<not> isActive (adsr v') then clearCurrentNote v' else v', rnd')"
  using assms
  by (simp add: renderNextBlock_def addToBuffer_def addSample_def getNumChannels_def)

lemma panic_stop_after_start:
  assumes "startNote midiNoteNumber velocity v = Inr v1"
  shows "voiceState (stopNote 0 False v1) = Free \<and>
         adsr (stopNote 0 False v1) = noteOff (noteOn (adsr v)) \<and>
         filterAdsr (stopNote 0 False v1) = noteOff (noteOn (filterAdsr v)) \<and>
         isActive (adsr (stopNote 0 False v1))"
proof -
  have s: "stopNote 0 False v1 =
      v1\<lparr>adsr := noteOff (adsr v1), filterAdsr := noteOff (filterAdsr v1), voiceState := Free\<rparr>"
    by (rule stopNote_frees_voice) simp
  have n: "adsr v1 = noteOn (adsr v)" "filterAdsr v1 = noteOn (filterAdsr v)"
    using startNote_envelopes[OF assms] by simp_all
  have a: "isActive (adsr (stopNote 0 False v1))"
    by (simp add: s n isActive_def noteOff_def noteOn_def)
  show ?thesis using a by (simp add: s n)
qed

text \<open>
  A stop without tail-off on a voice whose amplitude envelope is active, for every
  behaviour of the library parameters: the voice is Free, the envelope is still active,
  and the next block of one sample adds the two values of the loop body to the buffer.
\<close>

lemma panic_stop_renders:
  assumes "isActive (adsr v)"
    and "voiceSample L (stopNote velocity False v) rnd = Inr ((l, r), v', rnd')"
  shows "voiceState (stopNote velocity False v) = Free \<and>
         isActive (adsr (stopNote velocity False v)) \<and>
         renderNextBlock L [[x], [y]] 0 1 (stopNote velocity False v) rnd =
           Inr ([[x + l], [y + r]], if \<not> isActive (adsr v') then clearCurrentNote v' else v', rnd')"
proof -
  have s: "stopNote velocity False v =
      v\<lparr>adsr := noteOff (adsr v), filterAdsr := noteOff (filterAdsr v), voiceState := Free\<rparr>"
    by (rule stopNote_frees_voice) simp
  have a: "isActive (adsr (stopNote velocity False v))"
    using assms(1) by (simp add: s isActive_def noteOff_def)
  have f: "voiceState (stopNote velocity False v) = Free" by (simp add: s)
  show ?thesis using a f render_one_sample[OF a assms(2), of x y] by simp
qed

text \<open>The loop body on the sounding voice after the stop; the draw \<open>1/2\<close> makes the noise \<open>0\<close>.\<close>

lemma soundingVoice_sample:
  "\<exists>v'. voiceSample holdLibrary (stopNote 0 False soundingVoice) (\<lambda>n. 1/2) =
          Inr ((tanh (- (3 * sqrt 2 / (2 * sqrt 3)) * (3/20) * (4/5) * 1.5) * 0.8,
                tanh (- (3 * sqrt 2 / (2 * sqrt 3)) * (3/20) * (4/5) * 1.5) * 0.8), v', \<lambda>n. 1/2) \<and>
        voiceState v' = Free \<and> isActive (adsr v')"
  by (simp add: stopNote_def Let_def noteOff_def clearCurrentNote_def voiceSample_def
      addAnalogNoise_def nextFloat_def
      soundingVoice_def filteredSample_def holdLibrary_def SynthVoice_init_def softClip_def
      ADSR_init_def getNextSampleStereo_def exampleUnison_def setStereoWidth_def
      setNumVoices_def Unison_setWaveform_def UnisonOscillator_init_def maxVoices_def
      Oscillator_init_def Oscillator_setWaveform_def eval_nat_numeral modulatedCutoff_def
      jlimit_def Oscillator_getNextSample_def waveformSample_def advancePhase_def
      panGains_def voicePan_def cos_45 sin_45 isActive_def)

text \<open>
  C6, at the failing input: the sounding voice (a note assigned, the amplitude envelope
  in Sustain at \<open>0.8\<close>) is stopped with \<open>allowTailOff = false\<close>, and the next block of one
  sample is rendered into a silent stereo buffer, with the library instance of the
  examples. \<open>stopNote\<close> does what the first half of the claim says: both envelopes have
  had \<open>noteOff\<close> and the voice is Free. But the amplitude envelope is in Release and so
  still active, and \<open>renderNextBlock\<close>, which tests the envelope only, does not leave
  early: the buffer is not silent after the call. The sample of the release, a negative
  number, has been added to both channels, and the voice is still Free.
\<close>

theorem panic_stop_keeps_rendering:
  "voiceState soundingVoice = Playing \<and>
   voiceState (stopNote 0 False soundingVoice) = Free \<and>
   adsr (stopNote 0 False soundingVoice) = noteOff (adsr soundingVoice) \<and>
   filterAdsr (stopNote 0 False soundingVoice) = noteOff (filterAdsr soundingVoice) \<and>
   envelopeState (adsr (stopNote 0 False soundingVoice)) = Release \<and>
   (\<exists>l v'.
      renderNextBlock holdLibrary [[0], [0]] 0 1 (stopNote 0 False soundingVoice) (\<lambda>n. 1/2)
        = Inr ([[l], [l]], v', \<lambda>n. 1/2) \<and>
      l = tanh (- (3 * sqrt 2 / (2 * sqrt 3)) * (3/20) * (4/5) * 1.5) * 0.8 \<and>
      l < 0 \<and> voiceState v' = Free)"
proof -
  define l :: real where "l = tanh (- (3 * sqrt 2 / (2 * sqrt 3)) * (3/20) * (4/5) * 1.5) * 0.8"
  have a: "isActive (adsr soundingVoice)"
    by (simp add: soundingVoice_def isActive_def)
  have p: "voiceState soundingVoice = Playing"
    by (simp add: soundingVoice_def)
  have s: "stopNote 0 False soundingVoice =
      soundingVoice\<lparr>adsr := noteOff (adsr soundingVoice),
        filterAdsr := noteOff (filterAdsr soundingVoice), voiceState := Free\<rparr>"
    by (rule stopNote_frees_voice) simp
  have f: "voiceState (stopNote 0 False soundingVoice) = Free"
    "adsr (stopNote 0 False soundingVoice) = noteOff (adsr soundingVoice)"
    "filterAdsr (stopNote 0 False soundingVoice) = noteOff (filterAdsr soundingVoice)"
    by (simp_all add: s)
  have "envelopeState (noteOff (adsr soundingVoice)) = Release"
    by (simp add: soundingVoice_def noteOff_def)
  then have e: "envelopeState (adsr (stopNote 0 False soundingVoice)) = Release"
    by (simp only: f(2))
  obtain v' where v: "voiceSample holdLibrary (stopNote 0 False soundingVoice) (\<lambda>n. 1/2) =
      Inr ((l, l), v', \<lambda>n. 1/2)" "voiceState v' = Free" "isActive (adsr v')"
    using soundingVoice_sample unfolding l_def by blast
  have "renderNextBlock holdLibrary [[0], [0]] 0 1 (stopNote 0 False soundingVoice) (\<lambda>n. 1/2)
      = Inr ([[0 + l], [0 + l]], if \<not> isActive (adsr v') then clearCurrentNote v' else v',
             \<lambda>n. 1/2)"
    using panic_stop_renders[OF a v(1), of 0 0] by (elim conjE)
  then have r: "renderNextBlock holdLibrary [[0], [0]] 0 1 (stopNote 0 False soundingVoice)
      (\<lambda>n. 1/2) = Inr ([[l], [l]], v', \<lambda>n. 1/2)"
    using v(3) by simp
  have "- (3 * sqrt 2 / (2 * sqrt 3)) * (3/20) * (4/5) * 1.5 < (0::real)" by simp
  then have "tanh (- (3 * sqrt 2 / (2 * sqrt 3)) * (3/20) * (4/5) * 1.5) < (0::real)"
    by (simp only: tanh_real_neg_iff)
  then have n: "l < 0" by (simp add: l_def)
  have "\<exists>l' v'.
      renderNextBlock holdLibrary [[0], [0]] 0 1 (stopNote 0 False soundingVoice) (\<lambda>n. 1/2)
        = Inr ([[l'], [l']], v', \<lambda>n. 1/2) \<and>
      l' = l \<and> l' < 0 \<and> voiceState v' = Free"
    using r n v(2) by blast
  then show ?thesis using p e f unfolding l_def by (intro conjI)
qed

theorem panic_stop_keeps_rendering_witness:
  "\<exists>b v' rnd'.
     renderNextBlock holdLibrary [[0], [0]] 0 1 (stopNote 0 False soundingVoice) (\<lambda>n. 1/2)
       = Inr (b, v', rnd') \<and>
     b \<noteq> [[0], [0]] \<and> voiceState v' = Free"
  using panic_stop_keeps_rendering by auto

text \<open>
  C7. When the amplitude envelope is inactive, \<open>renderNextBlock\<close> returns at once: the
  buffer, every component of the voice and the random generator are as before the call,
  for every buffer, start index and number of samples.
\<close>

theorem render_inactive_noop:
  assumes "\<not> isActive (adsr v)"
  shows "renderNextBlock L outputBuffer startSample numSamples v rnd = Inr (outputBuffer, v, rnd)"
  using assms by (simp add: renderNextBlock_def)

theorem render_inactive_noop_witness:
  "\<not> isActive (adsr (SynthVoice_init ())) \<and>
   renderNextBlock holdLibrary [[1, 2], [3, 4]] 0 2 (SynthVoice_init ()) (\<lambda>n. 1/2)
     = Inr ([[1, 2], [3, 4]], SynthVoice_init (), \<lambda>n. 1/2)"
proof -
  have h: "\<not> isActive (adsr (SynthVoice_init ()))"
    by (simp add: SynthVoice_init_def ADSR_init_def isActive_def)
  show ?thesis using h render_inactive_noop[OF h] by simp
qed

text \<open>
  C10. In an iteration of the render loop one noise value is obtained from
  \<open>addAnalogNoise\<close> (one draw of the generator when the noise is enabled, none
  otherwise), and the same product of that value and the amplitude-envelope value is
  added to the left and to the right channel value: the noise is the same in both
  channels and cancels in their difference.
\<close>

theorem noise_is_mono:
  assumes "filteredSample L v = Inr ((envValue, filteredLeft, filteredRight), v1)"
  shows "\<exists>noise rnd'.
           addAnalogNoise (noiseEnabled v) (noiseLevel v) rnd = (noise, rnd') \<and>
           rnd' = (if noiseEnabled v then (\<lambda>n. rnd (Suc n)) else rnd) \<and>
           envValue = fst (ADSR_getNextSample L (adsr v)) \<and>
           voiceSample L v rnd =
             Inr ((filteredLeft + noise * envValue, filteredRight + noise * envValue), v1, rnd') \<and>
           (filteredLeft + noise * envValue) - (filteredRight + noise * envValue)
             = filteredLeft - filteredRight"
proof -
  obtain noise rnd' where n: "addAnalogNoise (noiseEnabled v) (noiseLevel v) rnd = (noise, rnd')"
    by (cases "addAnalogNoise (noiseEnabled v) (noiseLevel v) rnd")
  have r: "rnd' = (if noiseEnabled v then (\<lambda>n. rnd (Suc n)) else rnd)"
    using n by (auto simp: addAnalogNoise_def nextFloat_def split: if_splits)
  have e: "envValue = fst (ADSR_getNextSample L (adsr v))"
    using assms by (auto simp: filteredSample_def Let_def split: prod.splits sum.splits)
  have "voiceSample L v rnd =
             Inr ((filteredLeft + noise * envValue, filteredRight + noise * envValue), v1, rnd')"
    using assms n by (simp add: voiceSample_def)
  moreover have "(filteredLeft + noise * envValue) - (filteredRight + noise * envValue)
      = filteredLeft - filteredRight" by simp
  ultimately show ?thesis using n r e by blast
qed


theorem noise_is_mono_witness:
  "\<exists>envValue filteredLeft filteredRight v1.
     filteredSample holdLibrary soundingVoice = Inr ((envValue, filteredLeft, filteredRight), v1) \<and>
     (\<exists>noise rnd'.
        addAnalogNoise (noiseEnabled soundingVoice) (noiseLevel soundingVoice) (\<lambda>n. 3/4)
          = (noise, rnd') \<and>
        noise \<noteq> 0 \<and> envValue \<noteq> 0 \<and>
        voiceSample holdLibrary soundingVoice (\<lambda>n. 3/4) =
          Inr ((filteredLeft + noise * envValue, filteredRight + noise * envValue), v1, rnd'))"
proof -
  have "\<exists>fl fr v1. filteredSample holdLibrary soundingVoice = Inr ((4/5, fl, fr), v1)"
    by (simp add: soundingVoice_def filteredSample_def holdLibrary_def SynthVoice_init_def
      ADSR_init_def getNextSampleStereo_def exampleUnison_def setStereoWidth_def
      setNumVoices_def Unison_setWaveform_def UnisonOscillator_init_def maxVoices_def
      Oscillator_init_def Oscillator_setWaveform_def eval_nat_numeral modulatedCutoff_def
      jlimit_def Oscillator_getNextSample_def waveformSample_def advancePhase_def
      panGains_def voicePan_def cos_45 sin_45)
  then obtain fl fr v1 where
    e: "filteredSample holdLibrary soundingVoice = Inr ((4/5, fl, fr), v1)" by blast
  have s: "fl32 (3 / 2) = 3 / 2" "fl32 (1 / 2) = 1 / 2"
    "fl32 (5153961 / 34359738368) = 5153961 / 34359738368"
    "fl32 (15461883 / 343597383680) = 6184753 / 137438953472"
    "fl32 (154618825 / 34359738368) = 9663677 / 2147483648"
    by (simp_all add: fl32_eval roundTo_eval[where k = 0] roundTo_eval[where k = "-1"]
      roundTo_eval[where k = "-13"] roundTo_eval[where k = "-15"] roundTo_eval[where k = "-8"])
  have n: "addAnalogNoise (noiseEnabled soundingVoice) (noiseLevel soundingVoice) (\<lambda>n. 3/4)
      = (9663677 / 2147483648, \<lambda>n. 3/4)"
    by (simp add: addAnalogNoise_def nextFloat_def soundingVoice_def SynthVoice_init_def
      fl32_base s)
  show ?thesis
    using e n noise_is_mono[OF e, of "\<lambda>n. 3/4"]
    by (intro exI[of _ "4/5"] exI[of _ fl] exI[of _ fr] exI[of _ v1]) auto
qed

end
